theory Spec2Isabelle
  imports Main "HOL-Library.Word" "HOL-Library.Multiset"
begin

unbundle bit_operations_syntax

section \<open>Open CAS: worker threads and the exported object\<close>

text \<open>
  A shallow embedding of the worker threads of the cache (\<^verbatim>\<open>queue_thread_run\<close>,
  \<^verbatim>\<open>cleaner_thread_run\<close>, their start and stop, and the selection of the least busy
  queue) and of \<^verbatim>\<open>modules/cas_cache/exp_obj.c\<close> (the
  exported block device: create, activate, lock, unlock, open, close, destroy).
  Kernel and OCF entry points are not part of the repository: their results are inputs of
  the model, and every call to one of them that changes something outside the driver is
  recorded in a log.
\<close>

subsection \<open>Common types\<close>

type_synonym u32 = "32 word"

text \<open>
  A C function of the driver either returns, or stops the kernel in a \<^verbatim>\<open>BUG_ON\<close>
  (\<^verbatim>\<open>ENV_BUG_ON\<close>).
\<close>

datatype 'a outcome = Bug | Ret 'a

subsection \<open>The least busy queue: \<^verbatim>\<open>cache_get_fastest_porter_queue\<close>\<close>

text \<open>
  The array \<^verbatim>\<open>cache_priv->queues\<close> has one entry per online CPU; it is given by the
  list of the values \<^verbatim>\<open>ocf_queue_pending_io\<close> reads, so \<^verbatim>\<open>cpus_no\<close> is the length of
  the list (the private data of the cache, tested by \<^verbatim>\<open>ENV_BUG_ON(!cache_priv)\<close>, is
  there). The function returns the index of \<^verbatim>\<open>min_queue\<close> and, as a record of what
  it examined, the indices whose pending count it read, in order. With no CPU it stops
  in \<^verbatim>\<open>ENV_BUG_ON(!cpus_no)\<close>.

  \<open>porter_scan\<close> is the \<^verbatim>\<open>for\<close> loop: \<^verbatim>\<open>for (i = 1; min_io && (i < cpus_no); i++)\<close>.
\<close>

function porter_scan :: "u32 list \<Rightarrow> nat \<Rightarrow> u32 \<Rightarrow> nat \<Rightarrow> nat list \<Rightarrow> nat \<times> nat list" where
  "porter_scan qs i min_io min_queue reads =
     (if min_io \<noteq> 0 \<and> i < length qs then
        (let cmp_io = qs ! i in
         if cmp_io < min_io then porter_scan qs (i + 1) cmp_io i (reads @ [i])
         else porter_scan qs (i + 1) min_io min_queue (reads @ [i]))
      else (min_queue, reads))"
  by pat_completeness auto
termination
  by (relation "measure (\<lambda>(qs, i, min_io, min_queue, reads). length qs - i)") auto

declare porter_scan.simps [simp del]

definition cache_get_fastest_porter_queue :: "u32 list \<Rightarrow> (nat \<times> nat list) outcome" where
  "cache_get_fastest_porter_queue qs =
     (if length qs = 0 then Bug
      else Ret (porter_scan qs 1 (qs ! 0) 0 [0]))"

text \<open>The loop invariant and the postcondition of the scan.\<close>

definition scan_inv :: "u32 list \<Rightarrow> nat \<Rightarrow> u32 \<Rightarrow> nat \<Rightarrow> nat list \<Rightarrow> bool" where
  "scan_inv qs i min_io min_queue reads \<longleftrightarrow>
     0 < i \<and> i \<le> length qs \<and> min_queue < i \<and> qs ! min_queue = min_io \<and>
     (\<forall>j < i. min_io \<le> qs ! j) \<and> (\<forall>j < min_queue. min_io < qs ! j) \<and>
     reads = [0..<i] \<and> (\<forall>j < i - 1. qs ! j \<noteq> 0)"

definition scan_post :: "u32 list \<Rightarrow> nat \<times> nat list \<Rightarrow> bool" where
  "scan_post qs r \<longleftrightarrow>
     fst r < length qs \<and> (\<forall>j < length qs. qs ! fst r \<le> qs ! j) \<and>
     (\<forall>j < fst r. qs ! fst r < qs ! j) \<and>
     snd r = [0..<min (length qs) (Suc (length (takeWhile (\<lambda>x. x \<noteq> 0) qs)))]"

subsection \<open>The exported object: data\<close>

text \<open>
  Names are the source's. A static function whose C name starts with an underscore has
  the prefix \<open>u_\<close> here (\<^verbatim>\<open>_cas_exp_obj_open\<close> is \<open>u_cas_exp_obj_open\<close>), one with two
  underscores the prefix \<open>uu_\<close>; the labels of a function's \<^verbatim>\<open>goto\<close> unwinding are
  functions of their own, named after the label.
\<close>

text \<open>
  Error numbers of the kernel (\<^verbatim>\<open>errno-base.h\<close>, \<^verbatim>\<open>errno.h\<close>); the C functions return
  them negated.
\<close>

definition ENOMEM :: int where "ENOMEM = 12"
definition EBUSY :: int where "EBUSY = 16"
definition EEXIST :: int where "EEXIST = 17"
definition ENODEV :: int where "ENODEV = 19"
definition EINVAL :: int where "EINVAL = 22"
definition ENAVAIL :: int where "ENAVAIL = 119"

definition PATH_MAX :: nat where "PATH_MAX = 4096"

text \<open>
  The calls into the kernel that acquire, release or publish something. The log keeps the
  calls that were made and took effect, in order; a call that failed (an allocation that
  returned \<^verbatim>\<open>NULL\<close>, a registration that returned an error) is not in it, except for
  \<open>DelPartitions\<close>, which may have removed some partitions before it failed. The gendisk
  of the bottom device belongs to the kernel too, so the two places that write its flags
  and minors are in the log as well: \<open>HideBottomDisk\<close> (in \<^verbatim>\<open>_cas_exp_obj_hide_parts\<close>:
  \<^verbatim>\<open>gdsk->flags &= ~_cas_flags; gdsk->minors = 1\<close>) and \<open>RestoreBottomDisk\<close> (in
  \<^verbatim>\<open>_cas_exp_obj_clear_dev_t\<close>: \<^verbatim>\<open>gdsk->minors = dsk->gd_minors; gdsk->flags |= dsk->gd_flags\<close>).
\<close>

datatype kcall =
    KmemCacheZalloc | KmemCacheFree
  | Kstrdup | KfreeDevName
  | TryModuleGet | ModulePut
  | KobjectAdd | KobjectPut
  | BlkMqAllocTagSet | BlkMqFreeTagSet
  | AllocMqDisk | CleanupMqDisk
  | DelPartitions | RereadPartitions | AllocateMinors
  | HideBottomDisk | RestoreBottomDisk
  | SetGeometry
  | KmallocPath | KfreePath | FilpOpen string | FilpClose
  | AddDisk | DelGendisk
  | BdLinkDiskHolder | BdUnlinkDiskHolder
  | SysfsCreateLink | SysfsRemoveLink
  | BlkCleanupQueue | PutDisk

text \<open>What \<^verbatim>\<open>filp_open\<close> returns: \<^verbatim>\<open>NULL\<close>, an \<^verbatim>\<open>ERR_PTR\<close>, or an open file.\<close>

datatype file_result = FileNull | FileErr int | FileOk

text \<open>
  The results of the kernel calls, and the constants of the kernel headers that the
  functions use, are the environment of a call.
\<close>

record kenv =
  DISK_NAME_LEN :: nat
  cas_flags :: int
  disk_major :: int
  kmem_cache_zalloc_ok :: bool
  kstrdup_ok :: bool
  try_module_get_ok :: bool
  kobject_add_res :: int
  blk_mq_alloc_tag_set_res :: int
  cas_alloc_mq_disk_res :: int
  alloc_queuedata_set :: bool
  bdev_is_whole :: bool
  disk_max_parts :: int
  del_partitions_res :: int
  cas_disk_allocate_minors :: "int \<Rightarrow> int"
  kmalloc_path_ok :: bool
  filp_open :: "string \<Rightarrow> file_result"
  bd_link_disk_holder_res :: int
  sysfs_create_link_res :: int

text \<open>
  \<^verbatim>\<open>struct cas_exp_obj_ops\<close>: \<^verbatim>\<open>set_geometry\<close> is optional; when present it is given by
  the value it returns.
\<close>

record cas_exp_obj_ops =
  set_geometry :: "int option"

record gendisk =
  first_minor :: int
  minors :: int
  major :: int
  flags :: int
  disk_name :: string
  fops_set :: bool
  private_data_set :: bool

record request_queue =
  queuedata_set :: bool
  hctx_driver_data_set :: bool
  make_request_set :: bool

text \<open>
  \<^verbatim>\<open>struct cas_exp_obj\<close>. A pointer is an option (\<open>None\<close> is \<^verbatim>\<open>NULL\<close>); \<open>kobj_ref\<close> is the
  reference count of the embedded kobject.
\<close>

record cas_exp_obj =
  dev_name :: "string option"
  owner :: "string option"
  ops :: "cas_exp_obj_ops option"
  kobj_ref :: nat
  gd :: "gendisk option"
  queue :: "request_queue option"
  activated :: bool

text \<open>
  \<^verbatim>\<open>struct cas_disk\<close>, with what the functions reach through it: the flags and minors of
  the gendisk of the bottom device (\<^verbatim>\<open>dsk->bd->bd_disk\<close>), and the log of kernel calls.
  \<open>exp_obj\<close> is the pointer \<^verbatim>\<open>dsk->exp_obj\<close>: it keeps its value when the object it
  points to is freed.
\<close>

record cas_disk =
  exp_obj :: "cas_exp_obj option"
  openers :: u32
  claimed :: bool
  gd_flags :: int
  gd_minors :: int
  priv :: "nat option"
  bd_disk_flags :: int
  bd_disk_minors :: int
  klog :: "kcall list"

definition kcall_log :: "kcall \<Rightarrow> cas_disk \<Rightarrow> cas_disk" where
  "kcall_log c dsk = dsk\<lparr>klog := klog dsk @ [c]\<rparr>"

definition upd_exp_obj :: "(cas_exp_obj \<Rightarrow> cas_exp_obj) \<Rightarrow> cas_disk \<Rightarrow> cas_disk" where
  "upd_exp_obj f dsk = dsk\<lparr>exp_obj := map_option f (exp_obj dsk)\<rparr>"

definition upd_gd :: "(gendisk \<Rightarrow> gendisk) \<Rightarrow> cas_disk \<Rightarrow> cas_disk" where
  "upd_gd f dsk = upd_exp_obj (\<lambda>e. e\<lparr>gd := map_option f (gd e)\<rparr>) dsk"

text \<open>\<^verbatim>\<open>strlen\<close>: the characters before the first NUL.\<close>

definition strlen :: "string \<Rightarrow> nat" where
  "strlen s = length (takeWhile (\<lambda>c. c \<noteq> CHR 0x00) s)"

definition kstrdup :: "string \<Rightarrow> string" where
  "kstrdup s = takeWhile (\<lambda>c. c \<noteq> CHR 0x00) s"

subsection \<open>The exported object: open, close, lock, unlock\<close>

text \<open>
  Each of the four runs between \<^verbatim>\<open>mutex_lock(&dsk->openers_lock)\<close> and
  \<^verbatim>\<open>mutex_unlock\<close>, so it is one atomic step on the disk.
\<close>

definition u_cas_exp_obj_open :: "cas_disk \<Rightarrow> int \<times> cas_disk" where
  "u_cas_exp_obj_open dsk =
     (if \<not> claimed dsk then
        (if openers dsk = - 1 then (- EBUSY, dsk)
         else (0, dsk\<lparr>openers := openers dsk + 1\<rparr>))
      else (- ENAVAIL, dsk))"

definition u_cas_exp_obj_close :: "cas_disk \<Rightarrow> unit outcome \<times> cas_disk" where
  "u_cas_exp_obj_close dsk =
     (if openers dsk = 0 then (Bug, dsk)
      else (Ret (), dsk\<lparr>openers := openers dsk - 1\<rparr>))"

definition cas_exp_obj_lock :: "cas_disk \<Rightarrow> int outcome \<times> cas_disk" where
  "cas_exp_obj_lock dsk =
     (if exp_obj dsk = None then (Bug, dsk)
      else if openers dsk = 0 then (Ret 0, dsk\<lparr>claimed := True\<rparr>)
      else (Ret (- EBUSY), dsk))"

definition cas_exp_obj_unlock :: "cas_disk \<Rightarrow> int \<times> cas_disk" where
  "cas_exp_obj_unlock dsk = (0, dsk\<lparr>claimed := False\<rparr>)"

subsection \<open>The exported object: create\<close>

definition zeroed_exp_obj :: cas_exp_obj where
  "zeroed_exp_obj = \<lparr>dev_name = None, owner = None, ops = None, kobj_ref = 0,
     gd = None, queue = None, activated = False\<rparr>"

definition cas_exp_obj_alloc :: "kenv \<Rightarrow> cas_disk \<Rightarrow> int outcome \<times> cas_disk" where
  "cas_exp_obj_alloc env dsk =
     (if exp_obj dsk \<noteq> None then (Bug, dsk)
      else if \<not> kmem_cache_zalloc_ok env then (Ret (- ENOMEM), dsk)
      else (Ret 0, (kcall_log KmemCacheZalloc dsk)\<lparr>exp_obj := Some zeroed_exp_obj\<rparr>))"

definition uu_cas_exp_obj_release :: "cas_disk \<Rightarrow> cas_disk" where
  "uu_cas_exp_obj_release dsk = kcall_log KmemCacheFree dsk"

text \<open>\<^verbatim>\<open>kfree(exp_obj->dev_name)\<close>; \<^verbatim>\<open>kfree(NULL)\<close> does nothing.\<close>

definition kfree_dev_name :: "cas_disk \<Rightarrow> cas_disk" where
  "kfree_dev_name dsk =
     (case exp_obj dsk of
        None \<Rightarrow> dsk
      | Some e \<Rightarrow> if dev_name e \<noteq> None then kcall_log KfreeDevName dsk else dsk)"

text \<open>
  The release function of the kobject type: it reads \<^verbatim>\<open>owner\<close>, frees the name, frees
  the object, and then puts the module.
\<close>

definition u_cas_exp_obj_release :: "cas_disk \<Rightarrow> cas_disk" where
  "u_cas_exp_obj_release dsk =
     (case exp_obj dsk of
        None \<Rightarrow> dsk
      | Some e \<Rightarrow>
          (let d1 = kfree_dev_name dsk;
               d2 = uu_cas_exp_obj_release d1
           in if owner e \<noteq> None then kcall_log ModulePut d2 else d2))"

text \<open>
  \<^verbatim>\<open>kobject_put(&exp_obj->kobj)\<close> of the kernel: it drops one reference and calls the
  release function of the type when the last one is gone.
\<close>

definition kobject_put :: "cas_disk \<Rightarrow> cas_disk" where
  "kobject_put dsk =
     (case exp_obj dsk of
        None \<Rightarrow> dsk
      | Some e \<Rightarrow>
          (let d1 = kcall_log KobjectPut (upd_exp_obj (\<lambda>e. e\<lparr>kobj_ref := kobj_ref e - 1\<rparr>) dsk)
           in if kobj_ref e = 1 then u_cas_exp_obj_release d1 else d1))"

definition cas_exp_obj_free :: "cas_disk \<Rightarrow> cas_disk" where
  "cas_exp_obj_free dsk =
     (if exp_obj dsk = None then dsk
      else (kobject_put dsk)\<lparr>exp_obj := None\<rparr>)"

text \<open>\<^verbatim>\<open>kobject_init\<close> sets the reference count to one; \<^verbatim>\<open>kobject_add\<close> may fail.\<close>

definition u_cas_exp_obj_init_kobject :: "kenv \<Rightarrow> cas_disk \<Rightarrow> int \<times> cas_disk" where
  "u_cas_exp_obj_init_kobject env dsk =
     (let d1 = upd_exp_obj (\<lambda>e. e\<lparr>kobj_ref := 1\<rparr>) dsk;
          result = kobject_add_res env
      in if result = 0 then (result, kcall_log KobjectAdd d1) else (result, d1))"

definition u_cas_init_tag_set :: "kenv \<Rightarrow> cas_disk \<Rightarrow> int \<times> cas_disk" where
  "u_cas_init_tag_set env dsk =
     (let result = blk_mq_alloc_tag_set_res env
      in if result = 0 then (result, kcall_log BlkMqAllocTagSet dsk) else (result, dsk))"

text \<open>
  \<^verbatim>\<open>_cas_del_partitions\<close> works through ioctls on the bottom device only: its result is
  an input, the call is logged.
\<close>

definition u_cas_del_partitions :: "kenv \<Rightarrow> cas_disk \<Rightarrow> int \<times> cas_disk" where
  "u_cas_del_partitions env dsk = (del_partitions_res env, kcall_log DelPartitions dsk)"

definition u_cas_exp_obj_hide_parts :: "kenv \<Rightarrow> cas_disk \<Rightarrow> int \<times> cas_disk" where
  "u_cas_exp_obj_hide_parts env dsk =
     (if \<not> bdev_is_whole env then (0, dsk)
      else
        (let (failed, d1) =
               (if 1 < disk_max_parts env
                then (let (r, d) = u_cas_del_partitions env dsk in (r \<noteq> 0, d))
                else (False, dsk))
         in if failed then (- EINVAL, kcall_log RereadPartitions d1)
            else
              (let d2 = d1\<lparr>gd_flags := bd_disk_flags d1 AND cas_flags env,
                            gd_minors := bd_disk_minors d1\<rparr>;
                   d3 = d2\<lparr>bd_disk_flags := bd_disk_flags d2 AND NOT (cas_flags env),
                            bd_disk_minors := 1\<rparr>
               in (0, kcall_log RereadPartitions (kcall_log HideBottomDisk d3)))))"

text \<open>
  \<^verbatim>\<open>_cas_exp_obj_set_dev_t(dsk, gd)\<close>: \<^verbatim>\<open>gd\<close> is the gendisk that \<^verbatim>\<open>exp_obj->gd\<close> already
  points to. \<^verbatim>\<open>gd->first_minor\<close> is assigned before it is tested. The disk is open, so
  its block device \<^verbatim>\<open>dsk->bd\<close> is there (\<^verbatim>\<open>BUG_ON(!bdev)\<close> does not fire).
\<close>

definition u_cas_exp_obj_set_dev_t :: "kenv \<Rightarrow> cas_disk \<Rightarrow> int \<times> cas_disk" where
  "u_cas_exp_obj_set_dev_t env dsk =
     (let (hidden, mnrs, flgs, d1) =
            (if \<not> bdev_is_whole env then (0, 1, 0, dsk)
             else (let (r, d) = u_cas_exp_obj_hide_parts env dsk
                   in (r, disk_max_parts env, gd_flags d, d)))
      in if hidden \<noteq> 0 then (- EINVAL, d1)
         else
           (let fm = cas_disk_allocate_minors env mnrs;
                d2 = upd_gd (\<lambda>g. g\<lparr>first_minor := fm\<rparr>) d1
            in if fm < 0 then (- EINVAL, d2)
               else (0, upd_gd (\<lambda>g. g\<lparr>minors := mnrs, major := disk_major env,
                                        flags := flags g OR flgs\<rparr>)
                          (kcall_log AllocateMinors d2))))"

definition u_cas_exp_obj_clear_dev_t :: "kenv \<Rightarrow> cas_disk \<Rightarrow> cas_disk" where
  "u_cas_exp_obj_clear_dev_t env dsk =
     (if bdev_is_whole env
      then kcall_log RereadPartitions
             (kcall_log RestoreBottomDisk
                (dsk\<lparr>bd_disk_minors := gd_minors dsk,
                     bd_disk_flags := bd_disk_flags dsk OR gd_flags dsk\<rparr>))
      else dsk)"

text \<open>The gendisk and the queue that \<^verbatim>\<open>cas_alloc_mq_disk\<close> hands out.\<close>

definition fresh_gendisk :: gendisk where
  "fresh_gendisk = \<lparr>first_minor = 0, minors = 0, major = 0, flags = 0, disk_name = [],
     fops_set = False, private_data_set = False\<rparr>"

definition fresh_queue :: "kenv \<Rightarrow> request_queue" where
  "fresh_queue env = \<lparr>queuedata_set = alloc_queuedata_set env,
     hctx_driver_data_set = False, make_request_set = False\<rparr>"

text \<open>The unwinding labels of \<^verbatim>\<open>cas_exp_obj_create\<close>, last label first.\<close>

definition error_exp_obj_alloc :: "int \<Rightarrow> cas_disk \<Rightarrow> int outcome \<times> cas_disk" where
  "error_exp_obj_alloc result dsk = (Ret result, dsk)"

definition error_kstrdup :: "int \<Rightarrow> cas_disk \<Rightarrow> int outcome \<times> cas_disk" where
  "error_kstrdup result dsk =
     error_exp_obj_alloc result ((uu_cas_exp_obj_release dsk)\<lparr>exp_obj := None\<rparr>)"

definition error_module_get :: "int \<Rightarrow> cas_disk \<Rightarrow> int outcome \<times> cas_disk" where
  "error_module_get result dsk = error_kstrdup result (kfree_dev_name dsk)"

definition error_init_kobject :: "int \<Rightarrow> cas_disk \<Rightarrow> int outcome \<times> cas_disk" where
  "error_init_kobject result dsk =
     error_module_get result (upd_exp_obj (\<lambda>e. e\<lparr>owner := None\<rparr>) (kcall_log ModulePut dsk))"

definition error_init_tag_set :: "int \<Rightarrow> cas_disk \<Rightarrow> int outcome \<times> cas_disk" where
  "error_init_tag_set result dsk = (Ret result, kobject_put dsk)"

definition error_alloc_mq_disk :: "int \<Rightarrow> cas_disk \<Rightarrow> int outcome \<times> cas_disk" where
  "error_alloc_mq_disk result dsk = error_init_tag_set result (kcall_log BlkMqFreeTagSet dsk)"

definition error_exp_obj_set_dev_t :: "int \<Rightarrow> cas_disk \<Rightarrow> int outcome \<times> cas_disk" where
  "error_exp_obj_set_dev_t result dsk =
     error_alloc_mq_disk result (upd_exp_obj (\<lambda>e. e\<lparr>gd := None\<rparr>) (kcall_log CleanupMqDisk dsk))"

definition error_set_geometry :: "kenv \<Rightarrow> int \<Rightarrow> cas_disk \<Rightarrow> int outcome \<times> cas_disk" where
  "error_set_geometry env result dsk =
     error_exp_obj_set_dev_t result (u_cas_exp_obj_clear_dev_t env (dsk\<lparr>priv := None\<rparr>))"

text \<open>
  The part of \<^verbatim>\<open>cas_exp_obj_create\<close> between the success of \<^verbatim>\<open>_cas_exp_obj_set_dev_t\<close>
  and the call of \<^verbatim>\<open>set_geometry\<close>: the queue and the gendisk are wired to the disk
  (\<^verbatim>\<open>_cas_init_queues\<close> sets the driver data of the hardware contexts of the queue).
\<close>

definition create_wire :: "kenv \<Rightarrow> nat option \<Rightarrow> cas_disk \<Rightarrow> cas_disk" where
  "create_wire env prv dsk =
     (let q = (fresh_queue env)\<lparr>queuedata_set := True\<rparr>;
          d1 = upd_exp_obj (\<lambda>e. e\<lparr>queue := Some q\<rparr>) dsk;
          d2 = d1\<lparr>priv := prv\<rparr>;
          d3 = upd_exp_obj (\<lambda>e. e\<lparr>queue := map_option (\<lambda>q. q\<lparr>hctx_driver_data_set := True\<rparr>) (queue e)\<rparr>) d2;
          d4 = upd_gd (\<lambda>g. g\<lparr>fops_set := True, private_data_set := True\<rparr>) d3;
          d5 = upd_exp_obj (\<lambda>e. e\<lparr>gd := map_option
                  (\<lambda>g. g\<lparr>disk_name := take (DISK_NAME_LEN env - 1) (case dev_name e of None \<Rightarrow> [] | Some n \<Rightarrow> n)\<rparr>)
                  (gd e)\<rparr>) d4
      in upd_exp_obj (\<lambda>e. e\<lparr>queue := map_option (\<lambda>q. q\<lparr>make_request_set := True\<rparr>) (queue e)\<rparr>) d5)"

text \<open>
  The last part of \<^verbatim>\<open>cas_exp_obj_create\<close>, from the call of \<^verbatim>\<open>_cas_exp_obj_set_dev_t\<close>
  on; \<^verbatim>\<open>exp_obj->gd\<close> is set already.
\<close>

definition create_finish ::
  "kenv \<Rightarrow> cas_exp_obj_ops option \<Rightarrow> nat option \<Rightarrow> cas_disk \<Rightarrow> int outcome \<times> cas_disk" where
  "create_finish env xops prv d6 =
     (let (result, d7) = u_cas_exp_obj_set_dev_t env d6
      in if result \<noteq> 0 then error_exp_obj_set_dev_t result d7
         else if queuedata_set (fresh_queue env) then (Bug, d7)
         else
           (let d8 = create_wire env prv d7
            in case set_geometry (the xops) of
                 None \<Rightarrow> (Ret 0, d8)
               | Some result \<Rightarrow>
                   (let d9 = kcall_log SetGeometry d8
                    in if result \<noteq> 0
                       then error_set_geometry env result d9
                       else (Ret 0, d9))))"

definition cas_exp_obj_create ::
  "kenv \<Rightarrow> cas_disk \<Rightarrow> string \<Rightarrow> string option \<Rightarrow> cas_exp_obj_ops option \<Rightarrow> nat option
     \<Rightarrow> int outcome \<times> cas_disk" where
  "cas_exp_obj_create env dsk name own xops prv =
     (if own = None \<or> xops = None \<or> exp_obj dsk \<noteq> None then (Bug, dsk)
      else if DISK_NAME_LEN env \<le> strlen name then (Ret (- EINVAL), dsk)
      else
        (case cas_exp_obj_alloc env dsk of
           (Bug, d) \<Rightarrow> (Bug, d)
         | (Ret result, d1) \<Rightarrow>
             if result \<noteq> 0 then error_exp_obj_alloc result d1
             else if \<not> kstrdup_ok env then error_kstrdup (- ENOMEM) d1
             else
               (let d2 = kcall_log Kstrdup
                           (upd_exp_obj (\<lambda>e. e\<lparr>dev_name := Some (kstrdup name)\<rparr>) d1)
                in if \<not> try_module_get_ok env then error_module_get (- ENAVAIL) d2
                   else
                     (let d3 = upd_exp_obj (\<lambda>e. e\<lparr>owner := own, ops := xops\<rparr>)
                                 (kcall_log TryModuleGet d2);
                          (result, d4) = u_cas_exp_obj_init_kobject env d3
                      in if result \<noteq> 0 then error_init_kobject result d4
                         else
                           (let (result, d5) = u_cas_init_tag_set env d4
                            in if result \<noteq> 0 then error_init_tag_set result d5
                               else
                                 (let result = cas_alloc_mq_disk_res env
                                  in if result \<noteq> 0 then error_alloc_mq_disk result d5
                                     else create_finish env xops prv
                                            (upd_exp_obj (\<lambda>e. e\<lparr>gd := Some fresh_gendisk\<rparr>)
                                               (kcall_log AllocMqDisk d5))))))))"

subsection \<open>The exported object: activate and destroy\<close>

text \<open>\<^verbatim>\<open>snprintf(path, PATH_MAX, "/dev/%s", dsk->exp_obj->dev_name)\<close>.\<close>

definition exp_obj_path :: "cas_exp_obj \<Rightarrow> string" where
  "exp_obj_path e =
     take (PATH_MAX - 1) (''/dev/'' @ (case dev_name e of None \<Rightarrow> ''(null)'' | Some n \<Rightarrow> n))"

definition u_cas_exp_obj_exists :: "kenv \<Rightarrow> string \<Rightarrow> cas_disk \<Rightarrow> bool \<times> cas_disk" where
  "u_cas_exp_obj_exists env path dsk =
     (case filp_open env path of
        FileOk \<Rightarrow> (True, kcall_log FilpClose (kcall_log (FilpOpen path) dsk))
      | _ \<Rightarrow> (False, dsk))"

definition error_bd_claim :: "int \<Rightarrow> cas_disk \<Rightarrow> int outcome \<times> cas_disk" where
  "error_bd_claim result dsk =
     (Ret result, upd_exp_obj (\<lambda>e. e\<lparr>activated := False\<rparr>) (kcall_log DelGendisk dsk))"

definition error_sysfs_link :: "int \<Rightarrow> cas_disk \<Rightarrow> int outcome \<times> cas_disk" where
  "error_sysfs_link result dsk = error_bd_claim result (kcall_log BdUnlinkDiskHolder dsk)"

definition cas_exp_obj_activate :: "kenv \<Rightarrow> cas_disk \<Rightarrow> int outcome \<times> cas_disk" where
  "cas_exp_obj_activate env dsk =
     (case exp_obj dsk of
        None \<Rightarrow> (Bug, dsk)
      | Some e \<Rightarrow>
          if gd e = None \<or> activated e then (Bug, dsk)
          else if \<not> kmalloc_path_ok env then (Ret (- ENOMEM), dsk)
          else
            (let d1 = kcall_log KmallocPath dsk;
                 (found, d2) = u_cas_exp_obj_exists env (exp_obj_path e) d1
             in if found then (Ret (- EEXIST), kcall_log KfreePath d2)
                else
                  (let d3 = kcall_log KfreePath d2;
                       d4 = kcall_log AddDisk (upd_exp_obj (\<lambda>e. e\<lparr>activated := True\<rparr>) d3);
                       result = bd_link_disk_holder_res env
                   in if result \<noteq> 0 then error_bd_claim result d4
                      else
                        (let d5 = kcall_log BdLinkDiskHolder d4;
                             result = sysfs_create_link_res env
                         in if result \<noteq> 0 then error_sysfs_link result d5
                            else (Ret 0, kcall_log SysfsCreateLink d5)))))"

definition cas_exp_obj_destroy :: "kenv \<Rightarrow> cas_disk \<Rightarrow> int outcome \<times> cas_disk" where
  "cas_exp_obj_destroy env dsk =
     (case exp_obj dsk of
        None \<Rightarrow> (Ret (- ENODEV), dsk)
      | Some e \<Rightarrow>
          (let d1 = (if activated e
                     then kcall_log DelGendisk
                            (u_cas_exp_obj_clear_dev_t env
                               (kcall_log BdUnlinkDiskHolder (kcall_log SysfsRemoveLink dsk)))
                     else dsk);
               d2 = (if queue e \<noteq> None then kcall_log BlkCleanupQueue d1 else d1);
               d3 = kcall_log BlkMqFreeTagSet d2
           in (Ret 0, kcall_log PutDisk d3)))"

subsection \<open>Worker threads: the queue worker and its stop\<close>

text \<open>
  \<^verbatim>\<open>struct cas_thread_info\<close>: the two atomic flags hold 0 or 1 only; a completion is the
  count of its pending \<^verbatim>\<open>complete\<close> calls; \<open>ms\<close> is the variable that \<^verbatim>\<open>sync_data\<close>
  points to.
\<close>

record cas_thread_info =
  stop :: bool
  kicked :: bool
  compl :: nat
  sync_compl :: nat
  ms :: u32

text \<open>
  The threads run concurrently, so the model is a transition system: a state holds the
  shared data and the place each thread has reached in its code, and an event lets one
  thread run to its next place, or lets the cache engine change the queue. A thread that
  is blocked (in \<^verbatim>\<open>wait_event_interruptible\<close> or \<^verbatim>\<open>wait_for_completion\<close>) does not
  move while its condition is false.

  The places of \<^verbatim>\<open>queue_thread_run\<close>, from the top of the \<^verbatim>\<open>do\<close> loop on:
\<close>

datatype queue_pc =
    QWait          \<comment> \<open>in \<^verbatim>\<open>wait_event_interruptible(info->wq, pending || stop)\<close>\<close>
  | QRun           \<comment> \<open>before \<^verbatim>\<open>ocf_queue_run(q)\<close>\<close>
  | QCheckStop     \<comment> \<open>the loop condition, first operand: \<^verbatim>\<open>!atomic_read(&info->stop)\<close>\<close>
  | QCheckPending  \<comment> \<open>the loop condition, second operand: \<^verbatim>\<open>ocf_queue_pending_io(q)\<close>\<close>
  | QWarn          \<comment> \<open>before \<^verbatim>\<open>WARN(ocf_queue_pending_io(q), ...)\<close>\<close>
  | QComplete      \<comment> \<open>before \<^verbatim>\<open>CAS_COMPLETE_AND_EXIT(&info->compl, 0)\<close>\<close>
  | QExited

text \<open>The places of \<^verbatim>\<open>cas_stop_queue_thread\<close> with \<^verbatim>\<open>_cas_stop_thread\<close> inlined:\<close>

datatype stop_pc =
    SIdle          \<comment> \<open>not called yet\<close>
  | SReinit        \<comment> \<open>\<^verbatim>\<open>info && info->thread\<close> held; before \<^verbatim>\<open>reinit_completion\<close>\<close>
  | SSetStop       \<comment> \<open>before \<^verbatim>\<open>atomic_set(&info->stop, 1)\<close>\<close>
  | SWake          \<comment> \<open>before \<^verbatim>\<open>wake_up(&info->wq)\<close>\<close>
  | SWaitCompl     \<comment> \<open>in \<^verbatim>\<open>wait_for_completion(&info->compl)\<close>\<close>
  | SFree          \<comment> \<open>before \<^verbatim>\<open>kfree(info)\<close>\<close>
  | SReturned

text \<open>
  \<open>q_priv\<close> tells whether \<^verbatim>\<open>ocf_queue_get_priv(q)\<close> is a thread info (set by
  \<^verbatim>\<open>cas_create_queue_thread\<close>); \<open>pending\<close> is what \<^verbatim>\<open>ocf_queue_pending_io(q)\<close> reads.
\<close>

record queue_sys =
  q_priv :: bool
  q_info :: cas_thread_info
  pending :: u32
  wpc :: queue_pc
  spc :: stop_pc
  warned :: bool

datatype queue_event =
    Enqueue        \<comment> \<open>the cache engine puts one more request on the queue\<close>
  | Worker         \<comment> \<open>the worker thread runs to its next place\<close>
  | Stopper        \<comment> \<open>the caller of \<^verbatim>\<open>cas_stop_queue_thread\<close> runs to its next place\<close>

text \<open>
  \<^verbatim>\<open>ocf_queue_run\<close> belongs to the cache engine: \<open>run\<close> gives the pending count it
  leaves behind, from the one it found.
\<close>

definition worker_step :: "(u32 \<Rightarrow> u32) \<Rightarrow> queue_sys \<Rightarrow> queue_sys" where
  "worker_step run s =
     (case wpc s of
        QWait \<Rightarrow> if pending s \<noteq> 0 \<or> stop (q_info s) then s\<lparr>wpc := QRun\<rparr> else s
      | QRun \<Rightarrow> s\<lparr>pending := run (pending s), wpc := QCheckStop\<rparr>
      | QCheckStop \<Rightarrow> if \<not> stop (q_info s) then s\<lparr>wpc := QWait\<rparr> else s\<lparr>wpc := QCheckPending\<rparr>
      | QCheckPending \<Rightarrow> if pending s \<noteq> 0 then s\<lparr>wpc := QWait\<rparr> else s\<lparr>wpc := QWarn\<rparr>
      | QWarn \<Rightarrow> s\<lparr>warned := (pending s \<noteq> 0), wpc := QComplete\<rparr>
      | QComplete \<Rightarrow> s\<lparr>q_info := (q_info s)\<lparr>compl := compl (q_info s) + 1\<rparr>, wpc := QExited\<rparr>
      | QExited \<Rightarrow> s)"

definition stopper_step :: "queue_sys \<Rightarrow> queue_sys" where
  "stopper_step s =
     (case spc s of
        SIdle \<Rightarrow> if q_priv s then s\<lparr>q_priv := False, spc := SReinit\<rparr>
                 else s\<lparr>spc := SFree\<rparr>
      | SReinit \<Rightarrow> s\<lparr>q_info := (q_info s)\<lparr>compl := 0\<rparr>, spc := SSetStop\<rparr>
      | SSetStop \<Rightarrow> s\<lparr>q_info := (q_info s)\<lparr>stop := True\<rparr>, spc := SWake\<rparr>
      | SWake \<Rightarrow> s\<lparr>spc := SWaitCompl\<rparr>
      | SWaitCompl \<Rightarrow>
          if 0 < compl (q_info s)
          then s\<lparr>q_info := (q_info s)\<lparr>compl := compl (q_info s) - 1\<rparr>, spc := SFree\<rparr>
          else s
      | SFree \<Rightarrow> s\<lparr>spc := SReturned\<rparr>
      | SReturned \<Rightarrow> s)"

definition queue_step :: "(u32 \<Rightarrow> u32) \<Rightarrow> queue_sys \<Rightarrow> queue_event \<Rightarrow> queue_sys" where
  "queue_step run s ev =
     (case ev of
        Enqueue \<Rightarrow> s\<lparr>pending := pending s + 1\<rparr>
      | Worker \<Rightarrow> worker_step run s
      | Stopper \<Rightarrow> stopper_step s)"

definition queue_exec :: "(u32 \<Rightarrow> u32) \<Rightarrow> queue_event list \<Rightarrow> queue_sys \<Rightarrow> queue_sys" where
  "queue_exec run evs s = foldl (queue_step run) s evs"

text \<open>
  The state in which \<^verbatim>\<open>cas_create_queue_thread\<close> leaves a queue when it returns 0: the
  worker has signalled its start and is at the top of its loop, \<^verbatim>\<open>_cas_start_thread\<close>
  has consumed that completion, nobody has asked for a stop.
\<close>

definition queue_started :: "u32 \<Rightarrow> queue_sys" where
  "queue_started p =
     \<lparr>q_priv = True,
      q_info = \<lparr>stop = False, kicked = False, compl = 0, sync_compl = 0, ms = 0\<rparr>,
      pending = p, wpc = QWait, spc = SIdle, warned = False\<rparr>"

text \<open>The enqueue pattern is prior to the stop: no request is enqueued once
  \<^verbatim>\<open>cas_stop_queue_thread\<close> has been entered.\<close>

definition enqueues_prior :: "queue_event list \<Rightarrow> bool" where
  "enqueues_prior evs \<longleftrightarrow> Enqueue \<notin> set (dropWhile (\<lambda>e. e \<noteq> Stopper) evs)"

text \<open>The worker is inside its \<^verbatim>\<open>do ... while\<close> loop.\<close>

definition in_loop :: "queue_pc \<Rightarrow> bool" where
  "in_loop p \<longleftrightarrow> p = QWait \<or> p = QRun \<or> p = QCheckStop \<or> p = QCheckPending"

subsection \<open>Worker threads: the cleaner\<close>

text \<open>The places of \<^verbatim>\<open>cleaner_thread_run\<close>, from the top of the \<^verbatim>\<open>do\<close> loop on:\<close>

datatype cleaner_pc =
    CCheckStop          \<comment> \<open>\<^verbatim>\<open>if (atomic_read(&info->stop)) break;\<close>\<close>
  | CClearKicked        \<comment> \<open>before \<^verbatim>\<open>atomic_set(&info->kicked, 0)\<close>\<close>
  | CInitCompl          \<comment> \<open>before \<^verbatim>\<open>init_completion(&info->sync_compl)\<close>\<close>
  | CRun                \<comment> \<open>before \<^verbatim>\<open>ocf_cleaner_run(c, cache_get_fastest_porter_queue(cache))\<close>\<close>
  | CWaitCompl          \<comment> \<open>in \<^verbatim>\<open>wait_for_completion(&info->sync_compl)\<close>\<close>
  | CCheckMs            \<comment> \<open>\<^verbatim>\<open>if (ms == OCF_CLEANER_DISABLE)\<close>\<close>
  | CWaitEvent          \<comment> \<open>in \<^verbatim>\<open>wait_event_interruptible(info->wq, kicked || stop)\<close>\<close>
  | CWaitTimeout nat    \<comment> \<open>in \<^verbatim>\<open>wait_event_interruptible_timeout\<close>, with the jiffies left\<close>
  | CPrint              \<comment> \<open>before \<^verbatim>\<open>cache_print_each_porter_queue_pending_io(cache)\<close>\<close>
  | CComplete           \<comment> \<open>before \<^verbatim>\<open>CAS_COMPLETE_AND_EXIT(&info->compl, 0)\<close>\<close>
  | CExited
  | CBug                \<comment> \<open>stopped in \<^verbatim>\<open>ENV_BUG_ON(!cpus_no)\<close>\<close>

text \<open>
  \<open>c_queues\<close> are the pending counts of the queues of the cache; \<open>passes\<close> are the
  queues on which \<^verbatim>\<open>ocf_cleaner_run\<close> was called, in order.
\<close>

record cleaner_sys =
  c_info :: cas_thread_info
  c_queues :: "u32 list"
  cpc :: cleaner_pc
  passes :: "nat list"

datatype cleaner_event =
    Cleaner             \<comment> \<open>the cleaner thread runs to its next place\<close>
  | Kick                \<comment> \<open>\<^verbatim>\<open>cas_kick_cleaner_thread\<close>: \<^verbatim>\<open>atomic_set(&info->kicked, 1); wake_up\<close>\<close>
  | StopReq             \<comment> \<open>\<^verbatim>\<open>_cas_stop_thread\<close>: \<^verbatim>\<open>atomic_set(&info->stop, 1); wake_up\<close>\<close>
  | Completed u32       \<comment> \<open>the engine calls \<^verbatim>\<open>_cas_cleaner_complete(c, interval)\<close>\<close>
  | Tick                \<comment> \<open>one jiffy passes\<close>
  | Pending "u32 list"  \<comment> \<open>the pending counts of the queues change\<close>

text \<open>
  Constants that the cleaner takes from OCF and from the kernel: the value
  \<^verbatim>\<open>OCF_CLEANER_DISABLE\<close> and the function \<^verbatim>\<open>msecs_to_jiffies\<close>.
\<close>

record cleaner_env =
  OCF_CLEANER_DISABLE :: u32
  msecs_to_jiffies :: "u32 \<Rightarrow> nat"

definition cas_kick_cleaner_thread :: "cleaner_sys \<Rightarrow> cleaner_sys" where
  "cas_kick_cleaner_thread s = s\<lparr>c_info := (c_info s)\<lparr>kicked := True\<rparr>\<rparr>"

definition u_cas_cleaner_complete :: "u32 \<Rightarrow> cleaner_sys \<Rightarrow> cleaner_sys" where
  "u_cas_cleaner_complete interval s =
     s\<lparr>c_info := (c_info s)\<lparr>ms := interval, sync_compl := sync_compl (c_info s) + 1\<rparr>\<rparr>"

text \<open>
  \<^verbatim>\<open>wait_event_interruptible_timeout\<close> returns at once when the condition holds or no
  jiffy is left, and sleeps otherwise.
\<close>

definition cleaner_thread_step :: "cleaner_env \<Rightarrow> cleaner_sys \<Rightarrow> cleaner_sys" where
  "cleaner_thread_step env s =
     (case cpc s of
        CCheckStop \<Rightarrow> if stop (c_info s) then s\<lparr>cpc := CPrint\<rparr> else s\<lparr>cpc := CClearKicked\<rparr>
      | CClearKicked \<Rightarrow> s\<lparr>c_info := (c_info s)\<lparr>kicked := False\<rparr>, cpc := CInitCompl\<rparr>
      | CInitCompl \<Rightarrow> s\<lparr>c_info := (c_info s)\<lparr>sync_compl := 0\<rparr>, cpc := CRun\<rparr>
      | CRun \<Rightarrow>
          (case cache_get_fastest_porter_queue (c_queues s) of
             Bug \<Rightarrow> s\<lparr>cpc := CBug\<rparr>
           | Ret (q, reads) \<Rightarrow> s\<lparr>passes := passes s @ [q], cpc := CWaitCompl\<rparr>)
      | CWaitCompl \<Rightarrow>
          if 0 < sync_compl (c_info s)
          then s\<lparr>c_info := (c_info s)\<lparr>sync_compl := sync_compl (c_info s) - 1\<rparr>, cpc := CCheckMs\<rparr>
          else s
      | CCheckMs \<Rightarrow>
          if ms (c_info s) = OCF_CLEANER_DISABLE env then s\<lparr>cpc := CWaitEvent\<rparr>
          else s\<lparr>cpc := CWaitTimeout (msecs_to_jiffies env (ms (c_info s)))\<rparr>
      | CWaitEvent \<Rightarrow>
          if kicked (c_info s) \<or> stop (c_info s) then s\<lparr>cpc := CCheckStop\<rparr> else s
      | CWaitTimeout left \<Rightarrow>
          if kicked (c_info s) \<or> stop (c_info s) \<or> left = 0 then s\<lparr>cpc := CCheckStop\<rparr> else s
      | CPrint \<Rightarrow> s\<lparr>cpc := CComplete\<rparr>
      | CComplete \<Rightarrow> s\<lparr>c_info := (c_info s)\<lparr>compl := compl (c_info s) + 1\<rparr>, cpc := CExited\<rparr>
      | CExited \<Rightarrow> s
      | CBug \<Rightarrow> s)"

definition cleaner_step :: "cleaner_env \<Rightarrow> cleaner_sys \<Rightarrow> cleaner_event \<Rightarrow> cleaner_sys" where
  "cleaner_step env s ev =
     (case ev of
        Cleaner \<Rightarrow> cleaner_thread_step env s
      | Kick \<Rightarrow> cas_kick_cleaner_thread s
      | StopReq \<Rightarrow> s\<lparr>c_info := (c_info s)\<lparr>stop := True\<rparr>\<rparr>
      | Completed interval \<Rightarrow> u_cas_cleaner_complete interval s
      | Tick \<Rightarrow> (case cpc s of CWaitTimeout left \<Rightarrow> s\<lparr>cpc := CWaitTimeout (left - 1)\<rparr> | _ \<Rightarrow> s)
      | Pending qs \<Rightarrow> s\<lparr>c_queues := qs\<rparr>)"

definition cleaner_exec :: "cleaner_env \<Rightarrow> cleaner_event list \<Rightarrow> cleaner_sys \<Rightarrow> cleaner_sys" where
  "cleaner_exec env evs s = foldl (cleaner_step env) s evs"

text \<open>An event that can end a sleep of the cleaner before its time.\<close>

definition wakes :: "cleaner_event \<Rightarrow> bool" where
  "wakes ev \<longleftrightarrow> ev = Kick \<or> ev = StopReq"

subsection \<open>Example inputs\<close>

text \<open>
  A disk handle on which nothing has been created, on a whole bottom device with 16
  minors; an environment in which every kernel call succeeds and no file exists; and
  operations without and with a \<^verbatim>\<open>set_geometry\<close> that succeeds.
\<close>

definition disk0 :: cas_disk where
  "disk0 = \<lparr>exp_obj = None, openers = 0, claimed = False, gd_flags = 0, gd_minors = 0,
     priv = None, bd_disk_flags = 0x240, bd_disk_minors = 16, klog = []\<rparr>"

definition env_ok :: kenv where
  "env_ok = \<lparr>DISK_NAME_LEN = 32, cas_flags = 0x240, disk_major = 252,
     kmem_cache_zalloc_ok = True, kstrdup_ok = True, try_module_get_ok = True,
     kobject_add_res = 0, blk_mq_alloc_tag_set_res = 0, cas_alloc_mq_disk_res = 0,
     alloc_queuedata_set = False, bdev_is_whole = True, disk_max_parts = 16,
     del_partitions_res = 0, cas_disk_allocate_minors = (\<lambda>n. 0),
     kmalloc_path_ok = True, filp_open = (\<lambda>p. FileErr (- 2)),
     bd_link_disk_holder_res = 0, sysfs_create_link_res = 0\<rparr>"

definition ops_plain :: cas_exp_obj_ops where
  "ops_plain = \<lparr>set_geometry = None\<rparr>"

definition ops_geometry :: cas_exp_obj_ops where
  "ops_geometry = \<lparr>set_geometry = Some 0\<rparr>"

text \<open>The disk after a successful create of \<^verbatim>\<open>cas1-1\<close>, and after its activation.\<close>

definition disk_created :: cas_disk where
  "disk_created =
     snd (cas_exp_obj_create env_ok disk0 ''cas1-1'' (Some ''cas_cache'') (Some ops_geometry) (Some 7))"

definition disk_activated :: cas_disk where
  "disk_activated = snd (cas_exp_obj_activate env_ok disk_created)"

text \<open>An environment in which a file exists at \<^verbatim>\<open>/dev/cas1-1\<close>.\<close>

definition env_exists :: kenv where
  "env_exists = env_ok\<lparr>filp_open := (\<lambda>p. if p = ''/dev/cas1-1'' then FileOk else FileErr (- 2))\<rparr>"

text \<open>A name of 31 characters, and one of 32.\<close>

definition name31 :: string where
  "name31 = ''cas1-12345678901234567890123456''"

definition name32 :: string where
  "name32 = ''cas1-123456789012345678901234567''"

subsection \<open>Notions used to state the claims\<close>

text \<open>A call returned, and what it returned is a negative error number.\<close>

definition returns_error :: "int outcome \<Rightarrow> bool" where
  "returns_error r = (case r of Bug \<Rightarrow> False | Ret e \<Rightarrow> e < 0)"

text \<open>
  Unwinding. The calls that acquire, publish or change something, each with the call
  that releases it or puts it back; hiding the partitions of the bottom disk, the work of
  the device-number step, is paired with restoring it. The other calls are not paired:
  the removal and the re-reading of partitions (re-reading follows both the hiding and
  the restoring), the minors (the source has no call that gives them back), the
  temporary path buffer and \<^verbatim>\<open>set_geometry\<close>. The private pointer of the disk is a field
  of the disk: what becomes of it is stated on the disk, not on the log.
\<close>

fun undo_of :: "kcall \<Rightarrow> kcall option" where
  "undo_of KmemCacheZalloc = Some KmemCacheFree"
| "undo_of Kstrdup = Some KfreeDevName"
| "undo_of TryModuleGet = Some ModulePut"
| "undo_of KobjectAdd = Some KobjectPut"
| "undo_of BlkMqAllocTagSet = Some BlkMqFreeTagSet"
| "undo_of AllocMqDisk = Some CleanupMqDisk"
| "undo_of AddDisk = Some DelGendisk"
| "undo_of BdLinkDiskHolder = Some BdUnlinkDiskHolder"
| "undo_of SysfsCreateLink = Some SysfsRemoveLink"
| "undo_of HideBottomDisk = Some RestoreBottomDisk"
| "undo_of _ = None"

definition is_release :: "kcall \<Rightarrow> bool" where
  "is_release c \<longleftrightarrow>
     c \<in> set [KmemCacheFree, KfreeDevName, ModulePut, KobjectPut, BlkMqFreeTagSet,
              CleanupMqDisk, DelGendisk, BdUnlinkDiskHolder, SysfsRemoveLink,
              RestoreBottomDisk]"



text \<open>
  Environments with one failing step: the tag set cannot be allocated; the holder link
  fails; the symlink fails.
\<close>

definition env_tag_set_fails :: kenv where
  "env_tag_set_fails = env_ok\<lparr>blk_mq_alloc_tag_set_res := - 12\<rparr>"



text \<open>A call that is not paired: it neither acquires what a later call releases, nor
  releases.\<close>

definition neutral :: "kcall \<Rightarrow> bool" where
  "neutral c \<longleftrightarrow> undo_of c = None \<and> \<not> is_release c"

text \<open>The paired calls of a sequence.\<close>

definition core :: "kcall list \<Rightarrow> kcall list" where
  "core ys = filter (\<lambda>c. \<not> neutral c) ys"

text \<open>A sequence of calls without the two writes to the bottom disk.\<close>

definition resource_calls :: "kcall list \<Rightarrow> kcall list" where
  "resource_calls ys = filter (\<lambda>c. c \<noteq> HideBottomDisk \<and> c \<noteq> RestoreBottomDisk) ys"

text \<open>The example disk after a create that failed at the allocation of the tag set.\<close>

definition disk_failed :: cas_disk where
  "disk_failed =
     snd (cas_exp_obj_create env_tag_set_fails disk0 ''cas1-1'' (Some ''cas_cache'')
            (Some ops_geometry) (Some 7))"



definition env_minors_fail :: kenv where
  "env_minors_fail = env_ok\<lparr>cas_disk_allocate_minors := (\<lambda>n. - 1)\<rparr>"

text \<open>
  The invariant of the queue worker and the stopper: the worker is past the first operand
  of its loop condition only when stop is set, and past the second only with an empty
  queue; stop is set only by a stopper that has reinitialised the completion; the
  completion is signalled, and the stopper is past its wait, only when the worker has
  exited.
\<close>

definition past_stop_check :: "queue_pc \<Rightarrow> bool" where
  "past_stop_check p \<longleftrightarrow> p = QCheckPending \<or> p = QWarn \<or> p = QComplete \<or> p = QExited"

definition past_loop :: "queue_pc \<Rightarrow> bool" where
  "past_loop p \<longleftrightarrow> p = QWarn \<or> p = QComplete \<or> p = QExited"

definition queue_inv :: "queue_sys \<Rightarrow> bool" where
  "queue_inv s \<longleftrightarrow>
     (past_stop_check (wpc s) \<longrightarrow> stop (q_info s)) \<and>
     (past_loop (wpc s) \<longrightarrow> pending s = 0) \<and>
     (spc s = SIdle \<longrightarrow> q_priv s) \<and>
     (spc s = SIdle \<or> spc s = SReinit \<or> spc s = SSetStop \<longrightarrow> \<not> stop (q_info s)) \<and>
     (0 < compl (q_info s) \<longrightarrow> wpc s = QExited) \<and>
     (spc s = SFree \<or> spc s = SReturned \<longrightarrow> wpc s = QExited)"

text \<open>Stop is never cleared: the worker is past the first operand of its loop condition
  only when stop is set.\<close>

definition stop_seen :: "queue_sys \<Rightarrow> bool" where
  "stop_seen s \<longleftrightarrow> (past_stop_check (wpc s) \<longrightarrow> stop (q_info s))"

text \<open>Example schedules: two requests are enqueued, then the queue is stopped while the
  worker drains it; and one in which a request arrives after the worker has left its
  loop.\<close>

definition sched_stop :: "queue_event list" where
  "sched_stop = [Enqueue, Worker, Enqueue, Stopper, Stopper, Worker, Stopper, Stopper,
     Worker, Worker, Worker, Worker, Worker, Worker, Worker, Worker, Stopper, Stopper]"

definition sched_late :: "queue_event list" where
  "sched_late = [Stopper, Stopper, Stopper, Stopper, Worker, Worker, Worker, Worker,
     Enqueue, Worker, Worker, Stopper, Stopper]"

text \<open>An \<^verbatim>\<open>ocf_queue_run\<close> that handles one request per call.\<close>

definition run_one :: "u32 \<Rightarrow> u32" where
  "run_one p = (if p = 0 then 0 else p - 1)"

text \<open>The cleaner has seen the stop flag at the top of its loop, or is past the loop.\<close>

definition exiting :: "cleaner_sys \<Rightarrow> bool" where
  "exiting s \<longleftrightarrow>
     (cpc s = CCheckStop \<and> stop (c_info s)) \<or> cpc s = CPrint \<or> cpc s = CComplete \<or>
     cpc s = CExited"

text \<open>The cleaner sleeps without a timeout, and neither flag is set.\<close>

definition asleep :: "cleaner_sys \<Rightarrow> bool" where
  "asleep s \<longleftrightarrow> cpc s = CWaitEvent \<and> \<not> kicked (c_info s) \<and> \<not> stop (c_info s)"

text \<open>
  An example cleaner: the sentinel is \<^verbatim>\<open>~0U\<close>, a jiffy is a millisecond, the cache has
  four queues, and the thread is at the top of its loop.
\<close>

definition cleaner_env0 :: cleaner_env where
  "cleaner_env0 = \<lparr>OCF_CLEANER_DISABLE = - 1, msecs_to_jiffies = unat\<rparr>"

definition cleaner0 :: cleaner_sys where
  "cleaner0 = \<lparr>c_info = \<lparr>stop = False, kicked = True, compl = 0, sync_compl = 0, ms = 0\<rparr>,
     c_queues = [5, 3, 3, 8], cpc = CCheckStop, passes = []\<rparr>"

text \<open>The example cleaner after it has started a pass; after the pass has delivered the
  interval 250; after it has delivered the sentinel; and with the stop flag set.\<close>

definition cleaner_waiting :: cleaner_sys where
  "cleaner_waiting = cleaner0\<lparr>c_info := (c_info cleaner0)\<lparr>kicked := False\<rparr>,
     passes := [1], cpc := CWaitCompl\<rparr>"

definition cleaner_timed :: cleaner_sys where
  "cleaner_timed = cleaner_waiting\<lparr>c_info := (c_info cleaner_waiting)\<lparr>ms := 250\<rparr>,
     cpc := CWaitTimeout 250\<rparr>"

definition cleaner_asleep :: cleaner_sys where
  "cleaner_asleep = cleaner_waiting\<lparr>c_info := (c_info cleaner_waiting)\<lparr>ms := - 1\<rparr>,
     cpc := CWaitEvent\<rparr>"

definition cleaner_stopping :: cleaner_sys where
  "cleaner_stopping = cleaner0\<lparr>c_info := (c_info cleaner0)\<lparr>stop := True\<rparr>\<rparr>"

section \<open>Properties\<close>

subsection \<open>The least busy queue\<close>

lemma tw_all: "\<forall>j < length qs. qs ! j \<noteq> (0::u32) \<Longrightarrow> length (takeWhile (\<lambda>x. x \<noteq> 0) qs) = length qs"
proof -
  assume a: "\<forall>j < length qs. qs ! j \<noteq> (0::u32)"
  have "\<forall>x \<in> set qs. x \<noteq> 0"
  proof
    fix x assume "x \<in> set qs"
    then obtain j where "j < length qs" "qs ! j = x" by (auto simp: in_set_conv_nth)
    then show "x \<noteq> 0" using a by auto
  qed
  then show ?thesis by (induction qs) auto
qed

lemma tw_first: "k < length qs \<Longrightarrow> qs ! k = (0::u32) \<Longrightarrow> \<forall>j < k. qs ! j \<noteq> 0 \<Longrightarrow>
   length (takeWhile (\<lambda>x. x \<noteq> 0) qs) = k"
proof (induction qs arbitrary: k)
  case Nil
  then show ?case by simp
next
  case (Cons a qs)
  show ?case
  proof (cases k)
    case 0
    then show ?thesis using Cons.prems by simp
  next
    case (Suc k')
    have "(a # qs) ! 0 \<noteq> 0" using Cons.prems(3) Suc by blast
    then have a: "a \<noteq> 0" by simp
    have "\<forall>j<k'. qs ! j \<noteq> 0"
    proof (intro allI impI)
      fix j assume "j < k'"
      then have "(a # qs) ! Suc j \<noteq> 0" using Cons.prems(3) Suc by blast
      then show "qs ! j \<noteq> 0" by simp
    qed
    then have "length (takeWhile (\<lambda>x. x \<noteq> 0) qs) = k'"
      using Cons.IH [of k'] Cons.prems Suc by simp
    then show ?thesis using a Suc by simp
  qed
qed

lemma scan_inv_lt:
  assumes "scan_inv qs i min_io min_queue reads" "min_io \<noteq> 0" "i < length qs" "qs ! i < min_io"
  shows "scan_inv qs (i + 1) (qs ! i) i (reads @ [i])"
proof -
  have a: "\<forall>j < i. min_io \<le> qs ! j" and b: "reads = [0..<i]" and c: "\<forall>j < i - 1. qs ! j \<noteq> 0"
    and d: "0 < i" and e: "min_queue < i" and f: "qs ! min_queue = min_io"
    using assms(1) by (auto simp: scan_inv_def)
  have 1: "\<forall>j < i + 1. qs ! i \<le> qs ! j"
  proof (intro allI impI)
    fix j assume "j < i + 1"
    then consider "j < i" | "j = i" by linarith
    then show "qs ! i \<le> qs ! j"
    proof cases
      case 1
      then have "min_io \<le> qs ! j" using a by blast
      then show ?thesis using assms(4) by simp
    next
      case 2
      then show ?thesis by simp
    qed
  qed
  have 2: "\<forall>j < i. qs ! i < qs ! j"
  proof (intro allI impI)
    fix j assume "j < i"
    then have "min_io \<le> qs ! j" using a by blast
    then show "qs ! i < qs ! j" using assms(4) by simp
  qed
  have 3: "\<forall>j < i + 1 - 1. qs ! j \<noteq> 0"
  proof (intro allI impI)
    fix j assume "j < i + 1 - 1"
    then have "j < i" by simp
    then have "min_io \<le> qs ! j" using a by blast
    then show "qs ! j \<noteq> 0" using assms(2) by auto
  qed
  show ?thesis
    unfolding scan_inv_def using 1 2 3 b assms(3) by simp
qed

lemma scan_inv_ge:
  assumes "scan_inv qs i min_io min_queue reads" "min_io \<noteq> 0" "i < length qs" "\<not> qs ! i < min_io"
  shows "scan_inv qs (i + 1) min_io min_queue (reads @ [i])"
proof -
  have a: "\<forall>j < i. min_io \<le> qs ! j" and b: "reads = [0..<i]" 
    and d: "0 < i" and e: "min_queue < i" and f: "qs ! min_queue = min_io"
    and g: "\<forall>j < min_queue. min_io < qs ! j"
    using assms(1) by (auto simp: scan_inv_def)
  have 1: "\<forall>j < i + 1. min_io \<le> qs ! j"
  proof (intro allI impI)
    fix j assume "j < i + 1"
    then consider "j < i" | "j = i" by linarith
    then show "min_io \<le> qs ! j"
    proof cases
      case 1
      then show ?thesis using a by blast
    next
      case 2
      then show ?thesis using assms(4) by simp
    qed
  qed
  have 3: "\<forall>j < i + 1 - 1. qs ! j \<noteq> 0"
  proof (intro allI impI)
    fix j assume "j < i + 1 - 1"
    then have "j < i" by simp
    then have "min_io \<le> qs ! j" using a by blast
    then show "qs ! j \<noteq> 0" using assms(2) by auto
  qed
  show ?thesis
    unfolding scan_inv_def using 1 3 b e f g assms(3) by simp
qed

lemma scan_inv_exit:
  assumes "scan_inv qs i min_io min_queue reads" "\<not> (min_io \<noteq> 0 \<and> i < length qs)"
  shows "scan_post qs (min_queue, reads)"
proof -
  have a: "\<forall>j < i. min_io \<le> qs ! j" and b: "reads = [0..<i]" and c: "\<forall>j < i - 1. qs ! j \<noteq> 0"
    and d: "0 < i" and e: "min_queue < i" and f: "qs ! min_queue = min_io"
    and g: "\<forall>j < min_queue. min_io < qs ! j" and h: "i \<le> length qs"
    using assms(1) by (auto simp: scan_inv_def)
  have len: "i = min (length qs) (Suc (length (takeWhile (\<lambda>x. x \<noteq> 0) qs)))"
  proof (cases "min_io = 0")
    case True
    have "min_queue = i - 1"
    proof (rule ccontr)
      assume "min_queue \<noteq> i - 1"
      then have "min_queue < i - 1" using e by linarith
      then show False using c f True by blast
    qed
    then have "length (takeWhile (\<lambda>x. x \<noteq> 0) qs) = i - 1"
      using tw_first [of "i - 1" qs] c f True d h by simp
    then show ?thesis using d h by simp
  next
    case False
    then have i: "i = length qs" using assms(2) h by simp
    have "\<forall>j < length qs. qs ! j \<noteq> 0"
    proof (intro allI impI)
      fix j assume "j < length qs"
      then have "min_io \<le> qs ! j" using a i by blast
      then show "qs ! j \<noteq> 0" using False by auto
    qed
    then show ?thesis using tw_all i by simp
  qed
  have all: "\<forall>j < length qs. min_io \<le> qs ! j"
  proof (cases "min_io = 0")
    case True
    then show ?thesis by simp
  next
    case False
    then have "i = length qs" using assms(2) h by simp
    then show ?thesis using a by simp
  qed
  show ?thesis
    unfolding scan_post_def using len all b e f g h by simp
qed

lemma porter_scan_inv:
  "scan_inv qs i min_io min_queue reads \<Longrightarrow> scan_post qs (porter_scan qs i min_io min_queue reads)"
proof (induction qs i min_io min_queue reads rule: porter_scan.induct)
  case (1 qs i min_io min_queue reads)
  show ?case
  proof (cases "min_io \<noteq> 0 \<and> i < length qs")
    case True
    show ?thesis
    proof (cases "qs ! i < min_io")
      case lt: True
      have "scan_inv qs (i + 1) (qs ! i) i (reads @ [i])"
        using scan_inv_lt 1(3) True lt by blast
      moreover have "porter_scan qs i min_io min_queue reads = porter_scan qs (i + 1) (qs ! i) i (reads @ [i])"
        using True lt by (subst porter_scan.simps) simp
      ultimately show ?thesis using 1(1) True lt by simp
    next
      case ge: False
      have "scan_inv qs (i + 1) min_io min_queue (reads @ [i])"
        using scan_inv_ge 1(3) True ge by blast
      moreover have "porter_scan qs i min_io min_queue reads = porter_scan qs (i + 1) min_io min_queue (reads @ [i])"
        using True ge by (subst porter_scan.simps) simp
      ultimately show ?thesis using 1(2) True ge by simp
    qed
  next
    case False
    have "porter_scan qs i min_io min_queue reads = (min_queue, reads)"
      using False by (subst porter_scan.simps) auto
    then show ?thesis
      using scan_inv_exit [OF 1(3) False] by simp
  qed
qed

lemma scan_inv_init: "qs \<noteq> [] \<Longrightarrow> scan_inv qs 1 (qs ! 0) 0 [0]"
  by (cases qs) (simp_all add: scan_inv_def)

lemma scan_post_Min:
  assumes "scan_post qs r"
  shows "qs ! fst r = Min (set qs)"
proof -
  have a: "fst r < length qs" and b: "\<forall>j < length qs. qs ! fst r \<le> qs ! j"
    using assms by (auto simp: scan_post_def)
  have "Min (set qs) = qs ! fst r"
  proof (rule Min_eqI)
    show "finite (set qs)" by simp
    show "qs ! fst r \<in> set qs" using a by simp
    fix y assume "y \<in> set qs"
    then obtain j where "j < length qs" "qs ! j = y" by (auto simp: in_set_conv_nth)
    then show "qs ! fst r \<le> y" using b by auto
  qed
  then show ?thesis by simp
qed

subsection \<open>The exported object\<close>

lemmas create_defs = cas_exp_obj_create_def create_finish_def cas_exp_obj_alloc_def zeroed_exp_obj_def
  kcall_log_def upd_exp_obj_def upd_gd_def u_cas_exp_obj_init_kobject_def u_cas_init_tag_set_def
  u_cas_exp_obj_set_dev_t_def u_cas_exp_obj_hide_parts_def u_cas_del_partitions_def
  fresh_gendisk_def fresh_queue_def create_wire_def u_cas_exp_obj_clear_dev_t_def
  error_exp_obj_alloc_def error_kstrdup_def error_module_get_def error_init_kobject_def
  error_init_tag_set_def error_alloc_mq_disk_def error_exp_obj_set_dev_t_def error_set_geometry_def
  kobject_put_def u_cas_exp_obj_release_def uu_cas_exp_obj_release_def kfree_dev_name_def

lemmas activate_defs = cas_exp_obj_activate_def exp_obj_path_def u_cas_exp_obj_exists_def
  error_bd_claim_def error_sysfs_link_def kcall_log_def upd_exp_obj_def PATH_MAX_def

lemmas errno_defs = ENOMEM_def EBUSY_def EEXIST_def ENODEV_def EINVAL_def ENAVAIL_def

text \<open>The two example disks, evaluated.\<close>

lemma create_example:
  "cas_exp_obj_create env_ok disk0 ''cas1-1'' (Some ''cas_cache'') (Some ops_geometry) (Some 7) =
     (Ret 0, disk_created)"
  by (simp add: disk_created_def create_defs env_ok_def disk0_def ops_geometry_def Let_def
      strlen_def kstrdup_def)

lemma disk_created_eq:
  "disk_created =
     \<lparr>exp_obj = Some
        \<lparr>dev_name = Some ''cas1-1'', owner = Some ''cas_cache'',
         ops = Some \<lparr>set_geometry = Some 0\<rparr>, kobj_ref = 1,
         gd = Some \<lparr>first_minor = 0, minors = 16, major = 252, flags = 576,
                    disk_name = ''cas1-1'', fops_set = True, private_data_set = True\<rparr>,
         queue = Some \<lparr>queuedata_set = True, hctx_driver_data_set = True,
                       make_request_set = True\<rparr>,
         activated = False\<rparr>,
      openers = 0, claimed = False, gd_flags = 576, gd_minors = 16,
      priv = Some 7, bd_disk_flags = 0, bd_disk_minors = 1,
      klog = [KmemCacheZalloc, Kstrdup, TryModuleGet, KobjectAdd, BlkMqAllocTagSet,
              AllocMqDisk, DelPartitions, HideBottomDisk, RereadPartitions, AllocateMinors,
              SetGeometry]\<rparr>"
  by (simp add: disk_created_def create_defs env_ok_def disk0_def ops_geometry_def Let_def
      strlen_def kstrdup_def)

lemma activate_example:
  "cas_exp_obj_activate env_ok disk_created = (Ret 0, disk_activated)"
  by (simp add: disk_activated_def disk_created_eq activate_defs env_ok_def Let_def)

lemma disk_activated_eq:
  "disk_activated =
     \<lparr>exp_obj = Some
        \<lparr>dev_name = Some ''cas1-1'', owner = Some ''cas_cache'',
         ops = Some \<lparr>set_geometry = Some 0\<rparr>, kobj_ref = 1,
         gd = Some \<lparr>first_minor = 0, minors = 16, major = 252, flags = 576,
                    disk_name = ''cas1-1'', fops_set = True, private_data_set = True\<rparr>,
         queue = Some \<lparr>queuedata_set = True, hctx_driver_data_set = True,
                       make_request_set = True\<rparr>,
         activated = True\<rparr>,
      openers = 0, claimed = False, gd_flags = 576, gd_minors = 16,
      priv = Some 7, bd_disk_flags = 0, bd_disk_minors = 1,
      klog = [KmemCacheZalloc, Kstrdup, TryModuleGet, KobjectAdd, BlkMqAllocTagSet,
              AllocMqDisk, DelPartitions, HideBottomDisk, RereadPartitions, AllocateMinors,
              SetGeometry,
              KmallocPath, KfreePath, AddDisk, BdLinkDiskHolder, SysfsCreateLink]\<rparr>"
  by (simp add: disk_activated_def disk_created_eq activate_defs env_ok_def Let_def)

lemma unat_inc: "x \<noteq> (- 1 :: u32) \<Longrightarrow> unat (x + 1) = unat x + 1"
proof -
  assume "x \<noteq> - 1"
  then have "1 + x \<noteq> 0" by (simp add: add_eq_0_iff)
  then have "unat (1 + x) = Suc (unat x)" by (rule unatSuc)
  then show ?thesis by (simp add: add.commute)
qed
subsection \<open>Unwinding after a failure\<close>

lemma map_filter_undo_Nil [simp]: "List.map_filter undo_of [] = []"
  by (simp add: List.map_filter_simps)

lemma map_filter_undo_Cons [simp]:
  "List.map_filter undo_of (c # cs) =
     (case undo_of c of None \<Rightarrow> List.map_filter undo_of cs
      | Some u \<Rightarrow> u # List.map_filter undo_of cs)"
  by (simp add: List.map_filter_simps)

lemma map_filter_undo_append [simp]:
  "List.map_filter undo_of (xs @ ys) = List.map_filter undo_of xs @ List.map_filter undo_of ys"
  by (simp add: List.map_filter_def)

lemma is_release_simps [simp]:
  "\<not> is_release KmemCacheZalloc"
  "is_release KmemCacheFree"
  "\<not> is_release Kstrdup"
  "is_release KfreeDevName"
  "\<not> is_release TryModuleGet"
  "is_release ModulePut"
  "\<not> is_release KobjectAdd"
  "is_release KobjectPut"
  "\<not> is_release BlkMqAllocTagSet"
  "is_release BlkMqFreeTagSet"
  "\<not> is_release AllocMqDisk"
  "is_release CleanupMqDisk"
  "\<not> is_release DelPartitions"
  "\<not> is_release RereadPartitions"
  "\<not> is_release AllocateMinors"
  "\<not> is_release HideBottomDisk"
  "is_release RestoreBottomDisk"
  "\<not> is_release SetGeometry"
  "\<not> is_release KmallocPath"
  "\<not> is_release KfreePath"
  "\<not> is_release (FilpOpen p)"
  "\<not> is_release FilpClose"
  "\<not> is_release AddDisk"
  "is_release DelGendisk"
  "\<not> is_release BdLinkDiskHolder"
  "is_release BdUnlinkDiskHolder"
  "\<not> is_release SysfsCreateLink"
  "is_release SysfsRemoveLink"
  "\<not> is_release BlkCleanupQueue"
  "\<not> is_release PutDisk"
  by (simp_all add: is_release_def)

lemma core_Nil [simp]: "core [] = []"
  by (simp add: core_def)

lemma core_Cons [simp]: "core (c # cs) = (if neutral c then core cs else c # core cs)"
  by (simp add: core_def)

lemma core_append [simp]: "core (xs @ ys) = core xs @ core ys"
  by (simp add: core_def)





lemma resource_calls_append [simp]:
  "resource_calls (xs @ ys) = resource_calls xs @ resource_calls ys"
  by (simp add: resource_calls_def)

lemma resource_calls_Nil [simp]: "resource_calls [] = []"
  by (simp add: resource_calls_def)

lemma resource_calls_Cons [simp]:
  "resource_calls (c # cs) =
     (if c \<noteq> HideBottomDisk \<and> c \<noteq> RestoreBottomDisk then c # resource_calls cs
      else resource_calls cs)"
  by (simp add: resource_calls_def)




























lemma create_tag_set_fails_example:
  "cas_exp_obj_create env_tag_set_fails disk0 ''cas1-1'' (Some ''cas_cache'') (Some ops_geometry) (Some 7) =
     (Ret (- ENOMEM),
      disk0\<lparr>klog := [KmemCacheZalloc, Kstrdup, TryModuleGet, KobjectAdd,
                      KobjectPut, KfreeDevName, KmemCacheFree, ModulePut],
            exp_obj := Some \<lparr>dev_name = Some ''cas1-1'', owner = Some ''cas_cache'',
               ops = Some ops_geometry, kobj_ref = 0, gd = None, queue = None,
               activated = False\<rparr>\<rparr>)"
  by (simp add: create_defs env_tag_set_fails_def env_ok_def disk0_def ops_geometry_def Let_def
      strlen_def kstrdup_def ENOMEM_def)

lemma disk_failed_eq:
  "disk_failed =
     \<lparr>exp_obj = Some \<lparr>dev_name = Some ''cas1-1'', owner = Some ''cas_cache'',
               ops = Some ops_geometry, kobj_ref = 0, gd = None, queue = None,
               activated = False\<rparr>,
      openers = 0, claimed = False, gd_flags = 0, gd_minors = 0,
      priv = None, bd_disk_flags = 0x240, bd_disk_minors = 16,
      klog = [KmemCacheZalloc, Kstrdup, TryModuleGet, KobjectAdd,
              KobjectPut, KfreeDevName, KmemCacheFree, ModulePut]\<rparr>"
  by (simp add: disk_failed_def create_tag_set_fails_example) (simp add: disk0_def)

lemma create_minors_fail_example:
  "fst (cas_exp_obj_create env_minors_fail disk0 ''cas1-1'' (Some ''cas_cache'') (Some ops_geometry) (Some 7)) =
     Ret (- EINVAL) \<and>
   klog (snd (cas_exp_obj_create env_minors_fail disk0 ''cas1-1'' (Some ''cas_cache'') (Some ops_geometry) (Some 7))) =
     [KmemCacheZalloc, Kstrdup, TryModuleGet, KobjectAdd, BlkMqAllocTagSet, AllocMqDisk,
      DelPartitions, HideBottomDisk, RereadPartitions,
      CleanupMqDisk, BlkMqFreeTagSet, KobjectPut, KfreeDevName, KmemCacheFree, ModulePut] \<and>
   bd_disk_flags disk0 = 0x240 \<and> bd_disk_minors disk0 = 16 \<and>
   bd_disk_flags (snd (cas_exp_obj_create env_minors_fail disk0 ''cas1-1'' (Some ''cas_cache'') (Some ops_geometry) (Some 7))) = 0 \<and>
   bd_disk_minors (snd (cas_exp_obj_create env_minors_fail disk0 ''cas1-1'' (Some ''cas_cache'') (Some ops_geometry) (Some 7))) = 1"
  by (simp add: create_defs env_minors_fail_def env_ok_def disk0_def ops_geometry_def Let_def
      strlen_def kstrdup_def EINVAL_def)




subsection \<open>Destroy\<close>

text \<open>
  On a handle whose pointer to the object is \<^verbatim>\<open>NULL\<close>, destroy returns \<^verbatim>\<open>-ENODEV\<close> and
  does nothing: this is the handle on which create never ran, and the handle after a
  create that failed before the kobject was registered. On a handle whose pointer is set,
  destroy returns 0 and tears down, whatever the object holds.
\<close>

lemma destroy_without_object:
  assumes "exp_obj dsk = None"
  shows "cas_exp_obj_destroy env dsk = (Ret (- ENODEV), dsk) \<and> - ENODEV < (0::int)"
  using assms by (simp add: cas_exp_obj_destroy_def ENODEV_def)

lemma destroy_never_created_example:
  "exp_obj disk0 = None \<and> cas_exp_obj_destroy env_ok disk0 = (Ret (- ENODEV), disk0) \<and>
   klog (snd (cas_exp_obj_destroy env_ok disk0)) = []"
proof -
  have e: "exp_obj disk0 = None" by (simp add: disk0_def)
  have l: "klog disk0 = []" by (simp add: disk0_def)
  show ?thesis using e l destroy_without_object [OF e, of env_ok] by simp
qed

lemma destroy_with_object:
  assumes "exp_obj dsk \<noteq> None"
  shows "fst (cas_exp_obj_destroy env dsk) = Ret 0 \<and>
         (\<exists>ys. klog (snd (cas_exp_obj_destroy env dsk)) = klog dsk @ ys @ [BlkMqFreeTagSet, PutDisk])"
proof -
  obtain e where e: "exp_obj dsk = Some e" using assms by auto
  have w: "klog (u_cas_exp_obj_clear_dev_t env d) =
      klog d @ (if bdev_is_whole env then [RestoreBottomDisk, RereadPartitions] else [])" for d
    by (simp add: u_cas_exp_obj_clear_dev_t_def kcall_log_def)
  show ?thesis
    by (simp add: cas_exp_obj_destroy_def e Let_def kcall_log_def w)
qed

subsection \<open>The queue worker\<close>

lemma queue_exec_append:
  "queue_exec run (xs @ ys) s = queue_exec run ys (queue_exec run xs s)"
  by (simp add: queue_exec_def)

lemma queue_exec_Cons:
  "queue_exec run (ev # evs) s = queue_exec run evs (queue_step run s ev)"
  by (simp add: queue_exec_def)

lemma queue_exec_Nil: "queue_exec run [] s = s"
  by (simp add: queue_exec_def)

lemma worker_step_inv: "queue_inv s \<Longrightarrow> queue_inv (worker_step run s)"
  by (cases "wpc s")
    (auto simp: queue_inv_def worker_step_def past_stop_check_def past_loop_def)

lemma stopper_step_inv: "queue_inv s \<Longrightarrow> queue_inv (stopper_step s)"
  by (cases "spc s") (auto simp: queue_inv_def stopper_step_def)

lemma enqueue_inv:
  "queue_inv s \<Longrightarrow> spc s = SIdle \<Longrightarrow> queue_inv (s\<lparr>pending := pending s + 1\<rparr>)"
  by (simp add: queue_inv_def past_loop_def past_stop_check_def) blast

lemma worker_step_spc: "spc (worker_step run s) = spc s"
  by (cases "wpc s") (simp_all add: worker_step_def)

lemma queue_inv_before_stop:
  assumes "queue_inv s" "spc s = SIdle" "Stopper \<notin> set evs"
  shows "queue_inv (queue_exec run evs s) \<and> spc (queue_exec run evs s) = SIdle"
  using assms
proof (induction evs arbitrary: s)
  case Nil
  then show ?case by (simp add: queue_exec_Nil)
next
  case (Cons ev evs)
  have "queue_inv (queue_step run s ev) \<and> spc (queue_step run s ev) = SIdle"
  proof (cases ev)
    case Enqueue
    then show ?thesis using Cons.prems enqueue_inv by (simp add: queue_step_def)
  next
    case Worker
    then show ?thesis
      using Cons.prems worker_step_inv worker_step_spc by (simp add: queue_step_def)
  next
    case Stopper
    then show ?thesis using Cons.prems by simp
  qed
  then show ?case using Cons.IH Cons.prems(3) by (simp add: queue_exec_Cons)
qed

lemma queue_inv_after_stop:
  assumes "queue_inv s" "Enqueue \<notin> set evs"
  shows "queue_inv (queue_exec run evs s)"
  using assms
proof (induction evs arbitrary: s)
  case Nil
  then show ?case by (simp add: queue_exec_Nil)
next
  case (Cons ev evs)
  have "queue_inv (queue_step run s ev)"
  proof (cases ev)
    case Enqueue
    then show ?thesis using Cons.prems by simp
  next
    case Worker
    then show ?thesis using Cons.prems worker_step_inv by (simp add: queue_step_def)
  next
    case Stopper
    then show ?thesis using Cons.prems stopper_step_inv by (simp add: queue_step_def)
  qed
  then show ?case using Cons.IH Cons.prems(2) by (simp add: queue_exec_Cons)
qed

lemma queue_started_inv: "queue_inv (queue_started p) \<and> spc (queue_started p) = SIdle"
  by (simp add: queue_inv_def queue_started_def past_stop_check_def past_loop_def)

lemma queue_inv_prior:
  assumes "enqueues_prior evs"
  shows "queue_inv (queue_exec run evs (queue_started p))"
proof -
  let ?pre = "takeWhile (\<lambda>e. e \<noteq> Stopper) evs"
  let ?post = "dropWhile (\<lambda>e. e \<noteq> Stopper) evs"
  have "Stopper \<notin> set ?pre" by (auto dest: set_takeWhileD)
  then have "queue_inv (queue_exec run ?pre (queue_started p))"
    using queue_inv_before_stop queue_started_inv by blast
  moreover have "Enqueue \<notin> set ?post" using assms by (simp add: enqueues_prior_def)
  ultimately have "queue_inv (queue_exec run ?post (queue_exec run ?pre (queue_started p)))"
    by (rule queue_inv_after_stop)
  moreover have "queue_exec run evs (queue_started p) =
      queue_exec run ?post (queue_exec run ?pre (queue_started p))"
    using queue_exec_append [of run ?pre ?post "queue_started p"] by simp
  ultimately show ?thesis by simp
qed

lemma stop_seen_worker: "stop_seen s \<Longrightarrow> stop_seen (worker_step run s)"
  by (cases "wpc s") (simp_all add: stop_seen_def worker_step_def past_stop_check_def)

lemma stop_seen_stopper: "stop_seen s \<Longrightarrow> stop_seen (stopper_step s)"
  by (cases "spc s") (simp_all add: stop_seen_def stopper_step_def)

lemma stop_seen_step: "stop_seen s \<Longrightarrow> stop_seen (queue_step run s ev)"
  by (cases ev) (simp_all add: queue_step_def stop_seen_worker stop_seen_stopper, simp add: stop_seen_def)

lemma stop_seen_exec: "stop_seen s \<Longrightarrow> stop_seen (queue_exec run evs s)"
  by (induction evs arbitrary: s) (simp_all add: queue_exec_Nil queue_exec_Cons stop_seen_step)

lemma leaves_loop:
  assumes "stop_seen s" "in_loop (wpc s)" "\<not> in_loop (wpc (worker_step run s))"
  shows "stop (q_info s) \<and> pending s = 0 \<and> wpc s = QCheckPending"
  using assms
  by (cases "wpc s")
    (simp_all add: stop_seen_def in_loop_def worker_step_def past_stop_check_def split: if_splits)

lemmas queue_eval = queue_exec_def queue_started_def queue_step_def worker_step_def
  stopper_step_def run_one_def

lemma sched_stop_example:
  "queue_exec run_one sched_stop (queue_started 0) =
     \<lparr>q_priv = False,
      q_info = \<lparr>stop = True, kicked = False, compl = 0, sync_compl = 0, ms = 0\<rparr>,
      pending = 0, wpc = QExited, spc = SReturned, warned = False\<rparr>"
  by (simp add: queue_eval sched_stop_def)

lemma sched_stop_exit_example:
  "queue_exec run_one (take 13 sched_stop) (queue_started 0) =
     \<lparr>q_priv = False,
      q_info = \<lparr>stop = True, kicked = False, compl = 0, sync_compl = 0, ms = 0\<rparr>,
      pending = 0, wpc = QCheckPending, spc = SWaitCompl, warned = False\<rparr>"
  by (simp add: queue_eval sched_stop_def)

text \<open>
  What the theorem below assumes cannot be dropped. A request that arrives after the
  worker has read an empty queue in its loop condition is still pending when the stop
  returns (the worker's \<^verbatim>\<open>WARN\<close> fires); and on a queue that never got a worker, stop
  returns at once and leaves the queue as it is.
\<close>

lemma late_enqueue_example:
  "\<not> enqueues_prior sched_late \<and>
   queue_exec run_one sched_late (queue_started 0) =
     \<lparr>q_priv = False,
      q_info = \<lparr>stop = True, kicked = False, compl = 0, sync_compl = 0, ms = 0\<rparr>,
      pending = 1, wpc = QExited, spc = SReturned, warned = True\<rparr>"
  by (simp add: queue_eval sched_late_def enqueues_prior_def)

lemma no_worker_example:
  "queue_exec run_one [Stopper, Stopper] ((queue_started 3)\<lparr>q_priv := False\<rparr>) =
     (queue_started 3)\<lparr>q_priv := False, spc := SReturned\<rparr>"
  by (simp add: queue_eval)

subsection \<open>The cleaner\<close>

lemma cleaner_exec_Nil: "cleaner_exec env [] s = s"
  by (simp add: cleaner_exec_def)

lemma cleaner_exec_Cons:
  "cleaner_exec env (ev # evs) s = cleaner_exec env evs (cleaner_step env s ev)"
  by (simp add: cleaner_exec_def)

lemma cleaner_exec_append:
  "cleaner_exec env (xs @ ys) s = cleaner_exec env ys (cleaner_exec env xs s)"
  by (simp add: cleaner_exec_def)

lemma exiting_thread_step:
  "exiting s \<Longrightarrow> exiting (cleaner_thread_step env s) \<and> passes (cleaner_thread_step env s) = passes s"
  by (cases "cpc s") (auto simp: exiting_def cleaner_thread_step_def)

lemma exiting_step:
  "exiting s \<Longrightarrow> exiting (cleaner_step env s ev) \<and> passes (cleaner_step env s ev) = passes s"
proof (cases ev)
  case Cleaner
  assume "exiting s"
  then show ?thesis using Cleaner exiting_thread_step by (simp add: cleaner_step_def)
next
  case Tick
  assume "exiting s"
  then show ?thesis using Tick
    by (cases "cpc s") (auto simp: exiting_def cleaner_step_def)
qed (auto simp: exiting_def cleaner_step_def cas_kick_cleaner_thread_def u_cas_cleaner_complete_def)

lemma exiting_exec:
  "exiting s \<Longrightarrow> exiting (cleaner_exec env evs s) \<and> passes (cleaner_exec env evs s) = passes s"
proof (induction evs arbitrary: s)
  case Nil
  then show ?case by (simp add: cleaner_exec_Nil)
next
  case (Cons ev evs)
  then show ?case using exiting_step [of s env ev] by (simp add: cleaner_exec_Cons)
qed

lemma asleep_step:
  assumes "asleep s" "\<not> wakes ev"
  shows "asleep (cleaner_step env s ev) \<and> passes (cleaner_step env s ev) = passes s"
  using assms
  by (cases ev)
    (auto simp: asleep_def wakes_def cleaner_step_def cleaner_thread_step_def
      u_cas_cleaner_complete_def)

lemma asleep_exec:
  assumes "asleep s" "\<forall>ev \<in> set evs. \<not> wakes ev"
  shows "asleep (cleaner_exec env evs s) \<and> passes (cleaner_exec env evs s) = passes s"
  using assms
proof (induction evs arbitrary: s)
  case Nil
  then show ?case by (simp add: cleaner_exec_Nil)
next
  case (Cons ev evs)
  then show ?case using asleep_step [of s ev env] by (simp add: cleaner_exec_Cons)
qed

lemma ticks_exec:
  "cpc s = CWaitTimeout n \<Longrightarrow>
   cleaner_exec env (replicate k Tick) s = s\<lparr>cpc := CWaitTimeout (n - k)\<rparr>"
proof (induction k arbitrary: s n)
  case 0
  then show ?case by (simp add: cleaner_exec_Nil)
next
  case (Suc k)
  have "cleaner_step env s Tick = s\<lparr>cpc := CWaitTimeout (n - 1)\<rparr>"
    using Suc.prems by (simp add: cleaner_step_def)
  then show ?case
    using Suc.IH [of "s\<lparr>cpc := CWaitTimeout (n - 1)\<rparr>" "n - 1"]
    by (simp add: cleaner_exec_Cons)
qed

lemma pass_started:
  assumes "cpc s = CCheckStop" "\<not> stop (c_info s)" "c_queues s \<noteq> []"
  shows "\<exists>q reads. cache_get_fastest_porter_queue (c_queues s) = Ret (q, reads) \<and>
           cleaner_exec env [Cleaner, Cleaner, Cleaner, Cleaner] s =
             s\<lparr>c_info := (c_info s)\<lparr>kicked := False, sync_compl := 0\<rparr>,
               passes := passes s @ [q], cpc := CWaitCompl\<rparr>"
proof -
  obtain q reads where r: "cache_get_fastest_porter_queue (c_queues s) = Ret (q, reads)"
    using assms(3) by (simp add: cache_get_fastest_porter_queue_def) (metis surj_pair)
  then show ?thesis
    using assms(1,2)
    by (simp add: cleaner_exec_def cleaner_step_def cleaner_thread_step_def)
qed

lemma interval_delivered:
  assumes "cpc s = CWaitCompl" "sync_compl (c_info s) = 0"
  shows "cleaner_thread_step env s = s \<and>
         cleaner_exec env [Completed iv, Cleaner, Cleaner] s =
           s\<lparr>c_info := (c_info s)\<lparr>ms := iv\<rparr>,
             cpc := (if iv = OCF_CLEANER_DISABLE env then CWaitEvent
                     else CWaitTimeout (msecs_to_jiffies env iv))\<rparr>"
  using assms
  by (simp add: cleaner_exec_def cleaner_step_def cleaner_thread_step_def
      u_cas_cleaner_complete_def)

lemma timed_wait:
  assumes "cpc s = CWaitTimeout n"
  shows "(0 < n \<and> \<not> kicked (c_info s) \<and> \<not> stop (c_info s) \<longrightarrow> cleaner_thread_step env s = s) \<and>
         (kicked (c_info s) \<or> stop (c_info s) \<longrightarrow> cleaner_thread_step env s = s\<lparr>cpc := CCheckStop\<rparr>) \<and>
         cleaner_exec env [Kick, Cleaner] s = s\<lparr>c_info := (c_info s)\<lparr>kicked := True\<rparr>, cpc := CCheckStop\<rparr> \<and>
         cleaner_exec env [StopReq, Cleaner] s = s\<lparr>c_info := (c_info s)\<lparr>stop := True\<rparr>, cpc := CCheckStop\<rparr> \<and>
         cleaner_exec env (replicate n Tick @ [Cleaner]) s = s\<lparr>cpc := CCheckStop\<rparr> \<and>
         (k < n \<and> \<not> kicked (c_info s) \<and> \<not> stop (c_info s) \<longrightarrow>
            cleaner_exec env (replicate k Tick @ [Cleaner]) s = s\<lparr>cpc := CWaitTimeout (n - k)\<rparr>)"
  using assms
  by (auto simp: cleaner_exec_append ticks_exec)
    (auto simp: cleaner_exec_def cleaner_step_def cleaner_thread_step_def cas_kick_cleaner_thread_def)

lemma untimed_wait:
  assumes "cpc s = CWaitEvent"
  shows "cleaner_exec env [Kick, Cleaner] s =
           s\<lparr>c_info := (c_info s)\<lparr>kicked := True\<rparr>, cpc := CCheckStop\<rparr> \<and>
         cleaner_exec env [StopReq, Cleaner] s =
           s\<lparr>c_info := (c_info s)\<lparr>stop := True\<rparr>, cpc := CCheckStop\<rparr>"
  using assms
  by (simp add: cleaner_exec_def cleaner_step_def cleaner_thread_step_def
      cas_kick_cleaner_thread_def)

lemma stop_seen_at_top:
  assumes "cpc s = CCheckStop" "stop (c_info s)"
  shows "cleaner_thread_step env s = s\<lparr>cpc := CPrint\<rparr> \<and>
         passes (cleaner_exec env evs s) = passes s"
proof -
  have "exiting s" using assms by (simp add: exiting_def)
  then have "passes (cleaner_exec env evs s) = passes s" using exiting_exec by blast
  then show ?thesis using assms by (simp add: cleaner_thread_step_def)
qed

lemma fastest_example: "cache_get_fastest_porter_queue [5, 3, 3, 8] = Ret (1, [0, 1, 2, 3])"
  by (simp add: cache_get_fastest_porter_queue_def porter_scan.simps)

section \<open>The claims\<close>

text \<open>
  Claim C1. From the state in which a queue worker was started, and for every schedule
  of the worker, the stopper and the enqueues: the worker takes the step that leaves its
  \<^verbatim>\<open>do ... while (!stop || pending)\<close> loop only in a state where the stop flag is set and
  the pending count is zero. And when no request is enqueued after
  \<^verbatim>\<open>cas_stop_queue_thread\<close> was entered (the enqueue pattern is prior to the stop), then
  once it has returned the pending count of the queue is zero, whatever was enqueued
  before and whatever \<^verbatim>\<open>ocf_queue_run\<close> does to the queue.
\<close>

theorem queue_drained_when_stopped:
  "(in_loop (wpc (queue_exec run evs (queue_started p))) \<and>
    \<not> in_loop (wpc (worker_step run (queue_exec run evs (queue_started p)))) \<longrightarrow>
      stop (q_info (queue_exec run evs (queue_started p))) \<and>
      pending (queue_exec run evs (queue_started p)) = 0) \<and>
   (enqueues_prior evs \<and> spc (queue_exec run evs (queue_started p)) = SReturned \<longrightarrow>
      pending (queue_exec run evs (queue_started p)) = 0)"
proof (intro conjI impI)
  assume a: "in_loop (wpc (queue_exec run evs (queue_started p))) \<and>
    \<not> in_loop (wpc (worker_step run (queue_exec run evs (queue_started p))))"
  have "stop_seen (queue_started p)"
    by (simp add: stop_seen_def queue_started_def past_stop_check_def)
  then have "stop_seen (queue_exec run evs (queue_started p))" by (rule stop_seen_exec)
  then show "stop (q_info (queue_exec run evs (queue_started p)))"
    and "pending (queue_exec run evs (queue_started p)) = 0"
    using a leaves_loop by blast+
next
  assume b: "enqueues_prior evs \<and> spc (queue_exec run evs (queue_started p)) = SReturned"
  then have "queue_inv (queue_exec run evs (queue_started p))" by (simp add: queue_inv_prior)
  then show "pending (queue_exec run evs (queue_started p)) = 0"
    using b by (simp add: queue_inv_def past_loop_def)
qed

text \<open>
  The theorem on a schedule that enqueues two requests and then stops the queue, with
  an \<^verbatim>\<open>ocf_queue_run\<close> that handles one request per call: after 13 events the worker is
  at the second operand of its loop condition and leaves the loop; at the end the stop
  has returned and nothing is pending.
\<close>

theorem queue_drained_when_stopped_witness:
  "enqueues_prior sched_stop \<and>
   spc (queue_exec run_one sched_stop (queue_started 0)) = SReturned \<and>
   pending (queue_exec run_one sched_stop (queue_started 0)) = 0 \<and>
   in_loop (wpc (queue_exec run_one (take 13 sched_stop) (queue_started 0))) \<and>
   \<not> in_loop (wpc (worker_step run_one (queue_exec run_one (take 13 sched_stop) (queue_started 0)))) \<and>
   stop (q_info (queue_exec run_one (take 13 sched_stop) (queue_started 0))) \<and>
   pending (queue_exec run_one (take 13 sched_stop) (queue_started 0)) = 0"
proof -
  have p: "enqueues_prior sched_stop" by (simp add: enqueues_prior_def sched_stop_def)
  have r: "spc (queue_exec run_one sched_stop (queue_started 0)) = SReturned"
    by (simp add: sched_stop_example)
  have l: "in_loop (wpc (queue_exec run_one (take 13 sched_stop) (queue_started 0)))"
    "\<not> in_loop (wpc (worker_step run_one
        (queue_exec run_one (take 13 sched_stop) (queue_started 0))))"
    by (simp_all add: sched_stop_exit_example in_loop_def worker_step_def)
  show ?thesis
    using p r l queue_drained_when_stopped [of run_one "take 13 sched_stop" 0]
      queue_drained_when_stopped [of run_one sched_stop 0]
    by blast
qed

text \<open>
  Claim C2. For every non-empty array of per-CPU queues, the selector returns the first
  (lowest) index whose pending count is the minimum of the array: the count there is the
  minimum and every earlier count is strictly greater. It stops reading as soon as the
  running minimum is zero: the indices it reads are \<open>0\<close> up to and including the first
  queue with a zero count, or all of them when there is none. For \<open>[5,3,3,8]\<close> it
  returns index 1, and for \<open>[0,0,0]\<close> index 0 after reading queue 0 only.
\<close>

theorem fastest_queue_first_minimum:
  "(qs \<noteq> [] \<longrightarrow>
      (\<exists>i reads. cache_get_fastest_porter_queue qs = Ret (i, reads) \<and>
         i < length qs \<and> qs ! i = Min (set qs) \<and> (\<forall>j < i. qs ! i < qs ! j) \<and>
         reads = [0..<min (length qs) (Suc (length (takeWhile (\<lambda>p. p \<noteq> 0) qs)))])) \<and>
   cache_get_fastest_porter_queue [5, 3, 3, 8] = Ret (1, [0, 1, 2, 3]) \<and>
   cache_get_fastest_porter_queue [0, 0, 0] = Ret (0, [0])"
proof (intro conjI impI)
  assume ne: "qs \<noteq> []"
  define r where "r = porter_scan qs 1 (qs ! 0) 0 [0]"
  have post: "scan_post qs r"
    unfolding r_def using ne by (intro porter_scan_inv scan_inv_init)
  have "cache_get_fastest_porter_queue qs = Ret (fst r, snd r)"
    using ne by (simp add: cache_get_fastest_porter_queue_def r_def)
  moreover have "fst r < length qs" "\<forall>j < fst r. qs ! fst r < qs ! j"
    "snd r = [0..<min (length qs) (Suc (length (takeWhile (\<lambda>p. p \<noteq> 0) qs)))]"
    using post by (auto simp: scan_post_def)
  moreover have "qs ! fst r = Min (set qs)" using post by (rule scan_post_Min)
  ultimately show "\<exists>i reads. cache_get_fastest_porter_queue qs = Ret (i, reads) \<and>
         i < length qs \<and> qs ! i = Min (set qs) \<and> (\<forall>j < i. qs ! i < qs ! j) \<and>
         reads = [0..<min (length qs) (Suc (length (takeWhile (\<lambda>p. p \<noteq> 0) qs)))]"
    by blast
next
  show "cache_get_fastest_porter_queue [5, 3, 3, 8] = Ret (1, [0, 1, 2, 3])"
    by (simp add: cache_get_fastest_porter_queue_def porter_scan.simps)
next
  show "cache_get_fastest_porter_queue [0, 0, 0] = Ret (0, [0])"
    by (simp add: cache_get_fastest_porter_queue_def porter_scan.simps)
qed

text \<open>The theorem at the array \<open>[4,2,0,1,0]\<close>: index 2, after reading queues 0, 1 and 2.\<close>

theorem fastest_queue_first_minimum_witness:
  "[4, 2, 0, 1, 0] \<noteq> ([] :: u32 list) \<and>
   cache_get_fastest_porter_queue [4, 2, 0, 1, 0] = Ret (2, [0, 1, 2]) \<and>
   (\<exists>i reads. cache_get_fastest_porter_queue [4, 2, 0, 1, 0] = Ret (i, reads) \<and>
      i < length [4, 2, 0, 1, 0 :: u32] \<and> [4, 2, 0, 1, 0 :: u32] ! i = Min (set [4, 2, 0, 1, 0]) \<and>
      (\<forall>j < i. [4, 2, 0, 1, 0 :: u32] ! i < [4, 2, 0, 1, 0 :: u32] ! j) \<and>
      reads = [0..<min (length [4, 2, 0, 1, 0 :: u32])
                 (Suc (length (takeWhile (\<lambda>p. p \<noteq> 0) [4, 2, 0, 1, 0 :: u32])))])"
proof -
  have ne: "[4, 2, 0, 1, 0] \<noteq> ([] :: u32 list)" by simp
  have e: "cache_get_fastest_porter_queue [4, 2, 0, 1, 0] = Ret (2, [0, 1, 2])"
    by (simp add: cache_get_fastest_porter_queue_def porter_scan.simps)
  show ?thesis
    using ne e fastest_queue_first_minimum [of "[4, 2, 0, 1, 0]"] by blast
qed



text \<open>
  Claim C4, as stated: on a handle on which activate has succeeded, a second activate
  returns an already-activated error. It does not hold: on the activated example disk
  the second call does not return at all.
\<close>

theorem second_activate_counterexample:
  "fst (cas_exp_obj_activate env_ok disk_created) = Ret 0 \<and>
   snd (cas_exp_obj_activate env_ok disk_created) = disk_activated \<and>
   \<not> returns_error (fst (cas_exp_obj_activate env_ok disk_activated))"
  by (simp add: activate_example returns_error_def)
    (simp add: disk_activated_eq cas_exp_obj_activate_def)

text \<open>
  Claim C4, amended. On a handle on which activate has succeeded, a second activate,
  whatever the kernel would answer, stops in \<^verbatim>\<open>BUG_ON(dsk->exp_obj->activated)\<close>: it
  returns no error number, and it has made no kernel call and changed nothing on the disk
  when it stops, so there is no second registration.
\<close>

theorem second_activate_stops:
  assumes "cas_exp_obj_activate env dsk = (Ret 0, dsk')"
  shows "cas_exp_obj_activate env' dsk' = (Bug, dsk')"
proof -
  have "\<exists>e. exp_obj dsk' = Some e \<and> activated e"
    using assms
    by (auto simp: activate_defs errno_defs Let_def
        split: option.splits if_splits prod.splits file_result.splits)
  then show ?thesis by (auto simp: cas_exp_obj_activate_def)
qed

text \<open>The theorem on the example disk: the first activate succeeds, the second stops.\<close>

theorem second_activate_stops_witness:
  "cas_exp_obj_activate env_ok disk_created = (Ret 0, disk_activated) \<and>
   cas_exp_obj_activate env_exists disk_activated = (Bug, disk_activated) \<and>
   klog (snd (cas_exp_obj_activate env_exists disk_activated)) = klog disk_activated"
  using activate_example second_activate_stops [OF activate_example, of env_exists] by simp

text \<open>
  Claim C5. In an iteration of the cleaner loop: when stop is set at the top of the
  loop, the thread leaves the loop at once and no pass is started any more, whatever
  happens next. Otherwise its next four steps clear the kicked flag, reinitialise the
  completion and start a pass on the queue that \<^verbatim>\<open>cache_get_fastest_porter_queue\<close>
  returns, and the thread then waits for the completion: it does not move until the
  callback has delivered an interval. When the interval is \<^verbatim>\<open>OCF_CLEANER_DISABLE\<close> the
  thread then sleeps without a timeout: no sequence of events without a kick or a stop
  (jiffies passing, further completions, its own wake-ups) moves it or starts a pass, and
  a kick or a stop wakes it. Otherwise it sleeps with the timeout
  \<^verbatim>\<open>msecs_to_jiffies(interval)\<close>: while jiffies are left and neither flag is set it
  does not move, a kick or a stop wakes it at once, and after that many jiffies it is
  back at the top of the loop.
\<close>

theorem cleaner_iteration:
  "(cpc s = CCheckStop \<and> stop (c_info s) \<longrightarrow>
      cleaner_thread_step env s = s\<lparr>cpc := CPrint\<rparr> \<and>
      passes (cleaner_exec env evs s) = passes s) \<and>
   (cpc s = CCheckStop \<and> \<not> stop (c_info s) \<and> c_queues s \<noteq> [] \<longrightarrow>
      (\<exists>q reads. cache_get_fastest_porter_queue (c_queues s) = Ret (q, reads) \<and>
         cleaner_exec env [Cleaner, Cleaner, Cleaner, Cleaner] s =
           s\<lparr>c_info := (c_info s)\<lparr>kicked := False, sync_compl := 0\<rparr>,
             passes := passes s @ [q], cpc := CWaitCompl\<rparr>)) \<and>
   (cpc s = CWaitCompl \<and> sync_compl (c_info s) = 0 \<longrightarrow>
      cleaner_thread_step env s = s \<and>
      cleaner_exec env [Completed iv, Cleaner, Cleaner] s =
        s\<lparr>c_info := (c_info s)\<lparr>ms := iv\<rparr>,
          cpc := (if iv = OCF_CLEANER_DISABLE env then CWaitEvent
                  else CWaitTimeout (msecs_to_jiffies env iv))\<rparr>) \<and>
   (asleep s \<and> (\<forall>ev \<in> set evs. \<not> wakes ev) \<longrightarrow>
      asleep (cleaner_exec env evs s) \<and> passes (cleaner_exec env evs s) = passes s) \<and>
   (cpc s = CWaitEvent \<longrightarrow>
      cleaner_exec env [Kick, Cleaner] s =
        s\<lparr>c_info := (c_info s)\<lparr>kicked := True\<rparr>, cpc := CCheckStop\<rparr> \<and>
      cleaner_exec env [StopReq, Cleaner] s =
        s\<lparr>c_info := (c_info s)\<lparr>stop := True\<rparr>, cpc := CCheckStop\<rparr>) \<and>
   (cpc s = CWaitTimeout n \<longrightarrow>
      (0 < n \<and> \<not> kicked (c_info s) \<and> \<not> stop (c_info s) \<longrightarrow> cleaner_thread_step env s = s) \<and>
      cleaner_exec env [Kick, Cleaner] s =
        s\<lparr>c_info := (c_info s)\<lparr>kicked := True\<rparr>, cpc := CCheckStop\<rparr> \<and>
      cleaner_exec env [StopReq, Cleaner] s =
        s\<lparr>c_info := (c_info s)\<lparr>stop := True\<rparr>, cpc := CCheckStop\<rparr> \<and>
      cleaner_exec env (replicate n Tick @ [Cleaner]) s = s\<lparr>cpc := CCheckStop\<rparr> \<and>
      (k < n \<and> \<not> kicked (c_info s) \<and> \<not> stop (c_info s) \<longrightarrow>
         cleaner_exec env (replicate k Tick @ [Cleaner]) s = s\<lparr>cpc := CWaitTimeout (n - k)\<rparr>))"
  using stop_seen_at_top [of s env evs] pass_started [of s env] interval_delivered [of s env iv]
    asleep_exec [of s evs env] untimed_wait [of s env] timed_wait [of s n env k]
  by blast

text \<open>
  The theorem on the example cleaner: a pass on queue 1 of \<open>[5,3,3,8]\<close>; with the
  interval 250 a sleep that is still on after 100 jiffies, over after 250, and ended by
  a kick; with the sentinel a sleep that jiffies and wake-ups do not end and a stop does;
  and with stop set no pass at all.
\<close>

theorem cleaner_iteration_witness:
  "cleaner_exec cleaner_env0 [Cleaner, Cleaner, Cleaner, Cleaner] cleaner0 = cleaner_waiting \<and>
   cleaner_thread_step cleaner_env0 cleaner_waiting = cleaner_waiting \<and>
   cleaner_exec cleaner_env0 [Completed 250, Cleaner, Cleaner] cleaner_waiting = cleaner_timed \<and>
   cleaner_thread_step cleaner_env0 cleaner_timed = cleaner_timed \<and>
   cleaner_exec cleaner_env0 (replicate 100 Tick @ [Cleaner]) cleaner_timed =
     cleaner_timed\<lparr>cpc := CWaitTimeout 150\<rparr> \<and>
   cleaner_exec cleaner_env0 (replicate 250 Tick @ [Cleaner]) cleaner_timed =
     cleaner_timed\<lparr>cpc := CCheckStop\<rparr> \<and>
   cpc (cleaner_exec cleaner_env0 [Tick, Kick, Cleaner] cleaner_timed) = CCheckStop \<and>
   cleaner_exec cleaner_env0 [Completed (- 1), Cleaner, Cleaner] cleaner_waiting = cleaner_asleep \<and>
   asleep (cleaner_exec cleaner_env0 [Tick, Cleaner, Tick, Tick, Cleaner, Pending [0, 0], Cleaner]
      cleaner_asleep) \<and>
   cpc (cleaner_exec cleaner_env0 [StopReq, Cleaner] cleaner_asleep) = CCheckStop \<and>
   cleaner_thread_step cleaner_env0 cleaner_stopping = cleaner_stopping\<lparr>cpc := CPrint\<rparr> \<and>
   passes (cleaner_exec cleaner_env0 [Cleaner, Kick, Cleaner, Tick, Cleaner, Cleaner] cleaner_stopping) = []"
proof -
  note t0 = cleaner_iteration [of cleaner0 cleaner_env0 "[]" 0 0 0]
  have h0: "cpc cleaner0 = CCheckStop \<and> \<not> stop (c_info cleaner0) \<and> c_queues cleaner0 \<noteq> []"
    "c_queues cleaner0 = [5, 3, 3, 8]"
    by (simp_all add: cleaner0_def)
  have w1: "cleaner_exec cleaner_env0 [Cleaner, Cleaner, Cleaner, Cleaner] cleaner0 = cleaner_waiting"
    using t0 h0 fastest_example by (auto simp: cleaner_waiting_def cleaner0_def)
  note tw = cleaner_iteration [of cleaner_waiting cleaner_env0 "[]" 250 0 0]
  note tw' = cleaner_iteration [of cleaner_waiting cleaner_env0 "[]" "- 1" 0 0]
  have hw: "cpc cleaner_waiting = CWaitCompl \<and> sync_compl (c_info cleaner_waiting) = 0"
    by (simp add: cleaner_waiting_def cleaner0_def)
  have w2: "cleaner_thread_step cleaner_env0 cleaner_waiting = cleaner_waiting"
    "cleaner_exec cleaner_env0 [Completed 250, Cleaner, Cleaner] cleaner_waiting = cleaner_timed"
    using tw hw by (simp_all add: cleaner_timed_def cleaner_env0_def)
  have w3: "cleaner_exec cleaner_env0 [Completed (- 1), Cleaner, Cleaner] cleaner_waiting = cleaner_asleep"
    using tw' hw by (simp add: cleaner_asleep_def cleaner_env0_def)
  note tt = cleaner_iteration [of cleaner_timed cleaner_env0 "[]" 0 250 100]
  have ht: "cpc cleaner_timed = CWaitTimeout 250" "\<not> kicked (c_info cleaner_timed)"
    "\<not> stop (c_info cleaner_timed)"
    by (simp_all add: cleaner_timed_def cleaner_waiting_def cleaner0_def)
  have w4: "cleaner_thread_step cleaner_env0 cleaner_timed = cleaner_timed"
    "cleaner_exec cleaner_env0 (replicate 100 Tick @ [Cleaner]) cleaner_timed =
       cleaner_timed\<lparr>cpc := CWaitTimeout 150\<rparr>"
    "cleaner_exec cleaner_env0 (replicate 250 Tick @ [Cleaner]) cleaner_timed =
       cleaner_timed\<lparr>cpc := CCheckStop\<rparr>"
    using tt ht by simp_all
  have tick: "cleaner_step cleaner_env0 cleaner_timed Tick = cleaner_timed\<lparr>cpc := CWaitTimeout 249\<rparr>"
    using ht by (simp add: cleaner_step_def)
  have w5: "cpc (cleaner_exec cleaner_env0 [Tick, Kick, Cleaner] cleaner_timed) = CCheckStop"
    using cleaner_iteration [of "cleaner_timed\<lparr>cpc := CWaitTimeout 249\<rparr>" cleaner_env0 "[]" 0 249 0]
      tick
    by (simp add: cleaner_exec_def)
  let ?evs = "[Tick, Cleaner, Tick, Tick, Cleaner, Pending [0, 0], Cleaner]"
  have ha: "asleep cleaner_asleep" "cpc cleaner_asleep = CWaitEvent"
    by (simp_all add: asleep_def cleaner_asleep_def cleaner_waiting_def cleaner0_def)
  have nw: "\<forall>ev \<in> set ?evs. \<not> wakes ev" by (simp add: wakes_def)
  note ta = cleaner_iteration [of cleaner_asleep cleaner_env0 ?evs 0 0 0]
  have w6: "asleep (cleaner_exec cleaner_env0 ?evs cleaner_asleep)"
    using ta ha nw by blast
  have w7: "cpc (cleaner_exec cleaner_env0 [StopReq, Cleaner] cleaner_asleep) = CCheckStop"
    using ta ha by simp
  have hs: "cpc cleaner_stopping = CCheckStop \<and> stop (c_info cleaner_stopping)"
    "passes cleaner_stopping = []"
    by (simp_all add: cleaner_stopping_def cleaner0_def)
  have w8: "cleaner_thread_step cleaner_env0 cleaner_stopping = cleaner_stopping\<lparr>cpc := CPrint\<rparr>"
    "passes (cleaner_exec cleaner_env0 [Cleaner, Kick, Cleaner, Tick, Cleaner, Cleaner] cleaner_stopping) = []"
    using cleaner_iteration [of cleaner_stopping cleaner_env0
        "[Cleaner, Kick, Cleaner, Tick, Cleaner, Cleaner]" 0 0 0] hs
    by simp_all
  show ?thesis using w1 w2 w3 w4 w5 w6 w7 w8 by simp
qed

text \<open>
  Claim C6. On a disk with an exported object, lock returns \<^verbatim>\<open>-EBUSY\<close> exactly when the
  opener count is not zero at the call, and then changes nothing; when the count is zero
  it returns 0 and sets the claimed flag. While the flag is set an open is rejected (with
  \<^verbatim>\<open>-ENAVAIL\<close>) and changes nothing, so the flag stays set and the next open is rejected
  too; unlock clears the flag, and after it an open is accepted again (unless the count
  is at \<^verbatim>\<open>UINT_MAX\<close>).
\<close>

theorem lock_busy_iff_opened:
  assumes "exp_obj dsk \<noteq> None"
  shows "(fst (cas_exp_obj_lock dsk) = Ret (- EBUSY) \<longleftrightarrow> openers dsk \<noteq> 0) \<and>
    (openers dsk \<noteq> 0 \<longrightarrow> cas_exp_obj_lock dsk = (Ret (- EBUSY), dsk)) \<and>
    (openers dsk = 0 \<longrightarrow> cas_exp_obj_lock dsk = (Ret 0, dsk\<lparr>claimed := True\<rparr>)) \<and>
    (claimed dsk \<longrightarrow> u_cas_exp_obj_open dsk = (- ENAVAIL, dsk)) \<and>
    cas_exp_obj_unlock dsk = (0, dsk\<lparr>claimed := False\<rparr>) \<and>
    (openers dsk \<noteq> - 1 \<longrightarrow>
       u_cas_exp_obj_open (dsk\<lparr>claimed := False\<rparr>) =
         (0, dsk\<lparr>claimed := False, openers := openers dsk + 1\<rparr>))"
  using assms
  by (auto simp: cas_exp_obj_lock_def cas_exp_obj_unlock_def u_cas_exp_obj_open_def
      EBUSY_def ENAVAIL_def)

text \<open>
  The theorem on the created disk: with one opener lock is refused; with none it
  succeeds, the open that follows is rejected, and after unlock an open succeeds.
\<close>

theorem lock_busy_iff_opened_witness:
  "exp_obj disk_created \<noteq> None \<and>
   cas_exp_obj_lock (disk_created\<lparr>openers := 1\<rparr>) = (Ret (- EBUSY), disk_created\<lparr>openers := 1\<rparr>) \<and>
   cas_exp_obj_lock disk_created = (Ret 0, disk_created\<lparr>claimed := True\<rparr>) \<and>
   u_cas_exp_obj_open (snd (cas_exp_obj_lock disk_created)) =
     (- ENAVAIL, disk_created\<lparr>claimed := True\<rparr>) \<and>
   cas_exp_obj_unlock (disk_created\<lparr>claimed := True\<rparr>) = (0, disk_created\<lparr>claimed := False\<rparr>) \<and>
   u_cas_exp_obj_open (disk_created\<lparr>claimed := False\<rparr>) =
     (0, disk_created\<lparr>claimed := False, openers := 1\<rparr>)"
proof -
  have e: "exp_obj disk_created \<noteq> None" "openers disk_created = 0"
    by (simp_all add: disk_created_eq)
  have e1: "exp_obj (disk_created\<lparr>openers := 1\<rparr>) \<noteq> None" using e by simp
  have e2: "exp_obj (disk_created\<lparr>claimed := True\<rparr>) \<noteq> None" using e by simp
  show ?thesis
    using e lock_busy_iff_opened [OF e(1)] lock_busy_iff_opened [OF e1]
      lock_busy_iff_opened [OF e2]
    by simp
qed

text \<open>
  Claim C7. On a handle with an exported object that has a gendisk and is not
  activated, when the buffer for the path can be allocated and a file can be opened at
  the target path \<^verbatim>\<open>/dev/<name>\<close>, activate returns \<^verbatim>\<open>-EEXIST\<close>. The only kernel calls it
  has made are the allocation of the path buffer, the open and close of the file and the
  release of the buffer: the disk is not registered, and the object, with its activation
  flag false, is as it was.
\<close>

theorem activate_existing_path:
  assumes "exp_obj dsk = Some e" "gd e \<noteq> None" "\<not> activated e"
    and "dev_name e = Some n" "length n + 5 < PATH_MAX"
    and "kmalloc_path_ok env" "filp_open env (''/dev/'' @ n) = FileOk"
  shows "cas_exp_obj_activate env dsk =
           (Ret (- EEXIST),
            dsk\<lparr>klog := klog dsk @ [KmallocPath, FilpOpen (''/dev/'' @ n), FilpClose, KfreePath]\<rparr>) \<and>
         exp_obj (snd (cas_exp_obj_activate env dsk)) = Some e \<and> - EEXIST < (0::int)"
  using assms by (simp add: activate_defs Let_def EEXIST_def)

text \<open>The theorem on the created example disk, with a file at \<^verbatim>\<open>/dev/cas1-1\<close>.\<close>

theorem activate_existing_path_witness:
  "cas_exp_obj_activate env_exists disk_created =
     (Ret (- EEXIST),
      disk_created\<lparr>klog := klog disk_created @
         [KmallocPath, FilpOpen ''/dev/cas1-1'', FilpClose, KfreePath]\<rparr>) \<and>
   AddDisk \<notin> set (klog (snd (cas_exp_obj_activate env_exists disk_created))) \<and>
   map_option activated (exp_obj (snd (cas_exp_obj_activate env_exists disk_created))) = Some False"
proof -
  obtain e where e: "exp_obj disk_created = Some e" "gd e \<noteq> None" "\<not> activated e"
    "dev_name e = Some ''cas1-1''"
    by (simp add: disk_created_eq)
  have l: "length ''cas1-1'' + 5 < PATH_MAX" by (simp add: PATH_MAX_def)
  have k: "kmalloc_path_ok env_exists" "filp_open env_exists (''/dev/'' @ ''cas1-1'') = FileOk"
    by (simp_all add: env_exists_def env_ok_def)
  have a: "AddDisk \<notin> set (klog disk_created)" by (simp add: disk_created_eq)
  show ?thesis
    using activate_existing_path [OF e l k] e a by simp
qed

text \<open>
  Claim C8. The longest name create accepts has \<^verbatim>\<open>DISK_NAME_LEN - 1\<close> characters. With
  a name of \<^verbatim>\<open>DISK_NAME_LEN\<close> characters or more (so with one character over the maximum)
  create returns \<^verbatim>\<open>-EINVAL\<close> and has made no kernel call and changed nothing: the disk,
  with its log, is as it was. With a shorter name (so with one exactly at the maximum)
  the name is not refused: create goes on to allocate the object, which is the first
  thing it does when the allocation succeeds, and returns \<^verbatim>\<open>-ENOMEM\<close> when it fails.
\<close>

theorem create_name_length:
  assumes "own \<noteq> None" "xops \<noteq> None" "exp_obj dsk = None"
  shows "(DISK_NAME_LEN env \<le> strlen name \<longrightarrow>
           cas_exp_obj_create env dsk name own xops prv = (Ret (- EINVAL), dsk)) \<and>
    (strlen name < DISK_NAME_LEN env \<and> kmem_cache_zalloc_ok env \<longrightarrow>
       (\<exists>rest. klog (snd (cas_exp_obj_create env dsk name own xops prv)) =
          klog dsk @ KmemCacheZalloc # rest)) \<and>
    (strlen name < DISK_NAME_LEN env \<and> \<not> kmem_cache_zalloc_ok env \<longrightarrow>
       cas_exp_obj_create env dsk name own xops prv = (Ret (- ENOMEM), dsk)) \<and>
    - EINVAL < (0::int)"
proof (intro conjI impI)
  assume "DISK_NAME_LEN env \<le> strlen name"
  then show "cas_exp_obj_create env dsk name own xops prv = (Ret (- EINVAL), dsk)"
    using assms by (simp add: cas_exp_obj_create_def)
next
  assume "strlen name < DISK_NAME_LEN env \<and> kmem_cache_zalloc_ok env"
  then show "\<exists>rest. klog (snd (cas_exp_obj_create env dsk name own xops prv)) =
          klog dsk @ KmemCacheZalloc # rest"
    using assms
    by (auto simp: create_defs Let_def split: prod.splits option.splits if_splits)
next
  assume "strlen name < DISK_NAME_LEN env \<and> \<not> kmem_cache_zalloc_ok env"
  then show "cas_exp_obj_create env dsk name own xops prv = (Ret (- ENOMEM), dsk)"
    using assms
    by (simp add: cas_exp_obj_create_def cas_exp_obj_alloc_def error_exp_obj_alloc_def ENOMEM_def)
next
  show "- EINVAL < (0::int)" by (simp add: EINVAL_def)
qed

text \<open>
  The theorem with \<^verbatim>\<open>DISK_NAME_LEN\<close> 32: a name of 31 characters is accepted, and create
  succeeds with it when every kernel call does; a name of 32 characters is refused and
  nothing is allocated.
\<close>

theorem create_name_length_witness:
  "strlen name31 = 31 \<and> strlen name32 = 32 \<and> DISK_NAME_LEN env_ok = 32 \<and>
   fst (cas_exp_obj_create env_ok disk0 name31 (Some ''cas_cache'') (Some ops_plain) None) = Ret 0 \<and>
   (\<exists>rest. klog (snd (cas_exp_obj_create env_ok disk0 name31 (Some ''cas_cache'') (Some ops_plain) None)) =
      klog disk0 @ KmemCacheZalloc # rest) \<and>
   cas_exp_obj_create env_ok disk0 name32 (Some ''cas_cache'') (Some ops_plain) None =
     (Ret (- EINVAL), disk0) \<and>
   klog (snd (cas_exp_obj_create env_ok disk0 name32 (Some ''cas_cache'') (Some ops_plain) None)) = []"
proof -
  have n: "strlen name31 = 31" "strlen name32 = 32"
    by (simp_all add: strlen_def name31_def name32_def)
  have d: "DISK_NAME_LEN env_ok = 32" "kmem_cache_zalloc_ok env_ok" "exp_obj disk0 = None"
    "klog disk0 = []"
    by (simp_all add: env_ok_def disk0_def)
  have h: "Some ''cas_cache'' \<noteq> None" "Some ops_plain \<noteq> None" by simp_all
  have ok: "fst (cas_exp_obj_create env_ok disk0 name31 (Some ''cas_cache'') (Some ops_plain) None) = Ret 0"
    by (simp add: create_defs env_ok_def disk0_def ops_plain_def Let_def n)
  note t31 = create_name_length [OF h d(3), of env_ok name31 None]
  note t32 = create_name_length [OF h d(3), of env_ok name32 None]
  have a: "\<exists>rest. klog (snd (cas_exp_obj_create env_ok disk0 name31 (Some ''cas_cache'') (Some ops_plain) None)) =
      klog disk0 @ KmemCacheZalloc # rest"
    using t31 n d by simp
  have b: "cas_exp_obj_create env_ok disk0 name32 (Some ''cas_cache'') (Some ops_plain) None =
     (Ret (- EINVAL), disk0)"
    using t32 n d by simp
  show ?thesis using n d ok a b by simp
qed

text \<open>
  Claim C9. An open of a device that is not claimed and whose opener count is
  \<^verbatim>\<open>UINT_MAX\<close> returns \<^verbatim>\<open>-EBUSY\<close> and leaves the disk as it was; an open of a claimed
  device returns the error \<^verbatim>\<open>-ENAVAIL\<close> and leaves the disk as it was. So the count never
  wraps around: an open that returns 0 has raised the count, read as a number, by one,
  and an open that returns anything else has changed nothing.
\<close>

theorem open_never_overflows:
  "(\<not> claimed dsk \<and> openers dsk = - 1 \<longrightarrow> u_cas_exp_obj_open dsk = (- EBUSY, dsk)) \<and>
   (claimed dsk \<longrightarrow> u_cas_exp_obj_open dsk = (- ENAVAIL, dsk)) \<and>
   (fst (u_cas_exp_obj_open dsk) = 0 \<longrightarrow>
      unat (openers (snd (u_cas_exp_obj_open dsk))) = unat (openers dsk) + 1) \<and>
   (fst (u_cas_exp_obj_open dsk) \<noteq> 0 \<longrightarrow> snd (u_cas_exp_obj_open dsk) = dsk) \<and>
   - EBUSY < (0::int) \<and> - ENAVAIL < (0::int)"
  by (auto simp: u_cas_exp_obj_open_def unat_inc EBUSY_def ENAVAIL_def)

text \<open>
  The theorem on the created disk with its count at \<^verbatim>\<open>UINT_MAX\<close>, on the created disk
  once claimed, and on the created disk as it is (count 0, raised to 1).
\<close>

theorem open_never_overflows_witness:
  "u_cas_exp_obj_open (disk_created\<lparr>openers := - 1\<rparr>) = (- EBUSY, disk_created\<lparr>openers := - 1\<rparr>) \<and>
   u_cas_exp_obj_open (disk_created\<lparr>claimed := True\<rparr>) = (- ENAVAIL, disk_created\<lparr>claimed := True\<rparr>) \<and>
   fst (u_cas_exp_obj_open disk_created) = 0 \<and>
   unat (openers (snd (u_cas_exp_obj_open disk_created))) = 1"
proof -
  have a: "\<not> claimed (disk_created\<lparr>openers := - 1\<rparr>) \<and> openers (disk_created\<lparr>openers := - 1\<rparr>) = - 1"
    by (simp add: disk_created_eq)
  have b: "claimed (disk_created\<lparr>claimed := True\<rparr>)" by simp
  have c: "fst (u_cas_exp_obj_open disk_created) = 0"
    by (simp add: u_cas_exp_obj_open_def disk_created_eq)
  have d: "unat (openers disk_created) = 0" by (simp add: disk_created_eq)
  show ?thesis
    using a b c d
      open_never_overflows [of "disk_created\<lparr>openers := - 1\<rparr>"]
      open_never_overflows [of "disk_created\<lparr>claimed := True\<rparr>"]
      open_never_overflows [of disk_created]
    by simp
qed
text \<open>
  Claim C10: on a disk handle that has no exported object, because create never ran or
  did not complete, destroy returns \<^verbatim>\<open>-ENODEV\<close> and tears nothing down. The code does not
  do this after a create that did not complete at the tag set: the object has been freed
  through \<^verbatim>\<open>kobject_put\<close>, \<^verbatim>\<open>dsk->exp_obj\<close> still points to it, and destroy, which tests
  this pointer only, returns 0 after \<^verbatim>\<open>blk_mq_free_tag_set\<close> and \<^verbatim>\<open>put_disk\<close>.
\<close>

theorem destroy_after_failed_create:
  "fst (cas_exp_obj_create env_tag_set_fails disk0 ''cas1-1'' (Some ''cas_cache'')
          (Some ops_geometry) (Some 7)) = Ret (- ENOMEM) \<and>
   disk_failed = snd (cas_exp_obj_create env_tag_set_fails disk0 ''cas1-1'' (Some ''cas_cache'')
          (Some ops_geometry) (Some 7)) \<and>
   klog disk_failed = [KmemCacheZalloc, Kstrdup, TryModuleGet, KobjectAdd,
                       KobjectPut, KfreeDevName, KmemCacheFree, ModulePut] \<and>
   exp_obj disk_failed \<noteq> None \<and>
   cas_exp_obj_destroy env_ok disk_failed =
     (Ret 0, disk_failed\<lparr>klog := klog disk_failed @ [BlkMqFreeTagSet, PutDisk]\<rparr>) \<and>
   cas_exp_obj_destroy env_ok disk_failed \<noteq> (Ret (- ENODEV), disk_failed)"
  by (simp add: create_tag_set_fails_example disk_failed_def)
    (simp add: cas_exp_obj_destroy_def disk0_def kcall_log_def)

end
